theory Spec2Isabelle
  imports Complex_Main "HOL-Library.Multiset" "HOL-Library.Monad_Syntax"
begin

section \<open>Strings\<close>

text \<open>
  The program is a browser script (\<^verbatim>\<open>src/index.tsx\<close>); the model follows the script
  that sends the feedback in batches and has the two export buttons.

  A JavaScript string is a sequence of 16-bit code units. The model has the strings whose
  code units are below \<^verbatim>\<open>0x100\<close> (Latin-1): a \<^typ>\<open>char\<close> is the code unit with that
  number, and a string with a larger code unit has no counterpart in \<^typ>\<open>string\<close>. On
  these strings the definitions below are what ECMAScript prescribes:
  \<^item> \<^verbatim>\<open>trim\<close> removes white space and line terminators; those below \<^verbatim>\<open>0x100\<close> are tab,
    line feed, vertical tab, form feed, carriage return, space and the no-break space
    \<^verbatim>\<open>U+00A0\<close>;
  \<^item> \<^verbatim>\<open>toLowerCase\<close> maps \<^verbatim>\<open>A-Z\<close> to \<^verbatim>\<open>a-z\<close> and the capitals \<^verbatim>\<open>U+00C0\<close> to
    \<^verbatim>\<open>U+00DE\<close>, the multiplication sign \<^verbatim>\<open>U+00D7\<close> excepted, to the letters 32 places
    further on, and leaves every other code unit below \<^verbatim>\<open>0x100\<close> as it is.
\<close>

definition isWhiteSpace :: "char \<Rightarrow> bool" where
  "isWhiteSpace c \<longleftrightarrow> (of_char c :: nat) \<in> {9, 10, 11, 12, 13, 32, 160}"

definition trim :: "string \<Rightarrow> string" where
  "trim s = rev (dropWhile isWhiteSpace (rev (dropWhile isWhiteSpace s)))"

definition toLowerChar :: "char \<Rightarrow> char" where
  "toLowerChar c =
     (let n = (of_char c :: nat) in
      if (65 \<le> n \<and> n \<le> 90) \<or> (192 \<le> n \<and> n \<le> 222 \<and> n \<noteq> 215)
      then char_of (n + 32) else c)"

definition toLowerCase :: "string \<Rightarrow> string" where
  "toLowerCase s = map toLowerChar s"

text \<open>\<^verbatim>\<open>s.replace(/^#+/, '')\<close>: the leading run of hash characters is removed.\<close>

definition stripLeadingHashes :: "string \<Rightarrow> string" where
  "stripLeadingHashes s = dropWhile (\<lambda>c. c = CHR ''#'') s"

text \<open>\<^verbatim>\<open>xs.join(sep)\<close>.\<close>

fun join :: "string \<Rightarrow> string list \<Rightarrow> string" where
  "join sep [] = []"
| "join sep [x] = x"
| "join sep (x # y # ys) = x @ sep @ join sep (y # ys)"

definition newline :: char where
  "newline = CHR 0x0A"

text \<open>\<^verbatim>\<open>s.split('\n')\<close>; the empty string splits into one empty line.\<close>

fun split_lines :: "string \<Rightarrow> string list" where
  "split_lines [] = [[]]"
| "split_lines (c # cs) =
     (if c = newline then [] # split_lines cs
      else (case split_lines cs of
              [] \<Rightarrow> [[c]]
            | l # ls \<Rightarrow> (c # l) # ls))"

text \<open>\<^verbatim>\<open>xs.slice(a, b)\<close> for \<open>0 \<le> a \<le> b\<close>; both ends are clamped to the length.\<close>

definition slice :: "nat \<Rightarrow> nat \<Rightarrow> 'a list \<Rightarrow> 'a list" where
  "slice a b xs = take (b - a) (drop a xs)"


section \<open>Label normalisation\<close>

text \<open>
  \<^verbatim>\<open>function normalizeLabel(label) { return label.trim().toLowerCase().replace(/^#+/, ''); }\<close>
\<close>

definition normalizeLabel :: "string \<Rightarrow> string" where
  "normalizeLabel label = stripLeadingHashes (toLowerCase (trim label))"


section \<open>Feedback records and the classification service\<close>

text \<open>
  \<^verbatim>\<open>let analysisResults: { feedback: string; labels: string[]; isIncorrect?: boolean }[]\<close>.
  The flag is optional in the source, hence \<^typ>\<open>bool option\<close>.
\<close>

record item =
  feedback :: string
  labels :: "string list"
  isIncorrect :: "bool option"

text \<open>
  What one \<^verbatim>\<open>await ai.models.generateContent(...)\<close> followed by
  \<^verbatim>\<open>JSON.parse(response.text)\<close> yields inside the \<^verbatim>\<open>try\<close> block:
  \<^item> \<open>Fails\<close>: the call rejects, or the text is not JSON, or the parsed value has a positive
    length but cannot be mapped; an exception is thrown;
  \<^item> \<open>NoItems\<close>: the parsed value is falsy or has no positive length (the guard
    \<^verbatim>\<open>labeledFeedbackBatch && labeledFeedbackBatch.length > 0\<close> skips it);
  \<^item> \<open>Items its\<close>: the parsed value is the array \<open>its\<close>.
  The service is outside the program; it is a parameter that maps the number of the batch
  and the prompt sent to the response.
\<close>

datatype response = Fails | NoItems | Items "item list"

type_synonym service = "nat \<Rightarrow> string \<Rightarrow> response"


section \<open>The page state\<close>

text \<open>The texts written to \<^verbatim>\<open>statusMessage.textContent\<close>.\<close>

datatype status =
    Blank
  | Processing nat nat
  | Complete nat
  | NoFeedback
  | ErrorOccurred

text \<open>The contents of \<^verbatim>\<open>resultsTableContainer\<close>.\<close>

datatype container = EmptyContainer | ResultsTable "item list" | ErrorParagraph

text \<open>Rows of the three sheets, with the column names of the source.\<close>

datatype row =
    CompiledRow (Feedback: string) (Labels: string) (Incorrect_Analysis: string)
  | ExplodedRow (Feedback: string) (Single_Label: string) (Incorrect_Analysis: string)
  | CountRow (Label: string) (Count: nat)

record download =
  fileName :: string
  sheets :: "(string \<times> row list) list"

text \<open>
  The global \<^verbatim>\<open>analysisResults\<close>, the parts of the page the handlers write, the prompts sent
  to the service so far (\<open>calls\<close>) and the files written so far (\<open>downloads\<close>).
\<close>

record session =
  feedbackInput :: string
  analysisResults :: "item list"
  statusMessage :: status
  statusError :: bool
  resultsTableContainer :: container
  resultsHeaderHidden :: bool
  exportButtonDisabled :: bool
  exportExplodedButtonDisabled :: bool
  loadingSpinnerHidden :: bool
  analyzeButtonDisabled :: bool
  labelCountsSummary :: "(string \<times> nat) list"
  labelCountsSummaryHidden :: bool
  calls :: "string list"
  downloads :: "download list"


section \<open>Counting labels\<close>

text \<open>
  A JavaScript \<^verbatim>\<open>Map\<close> keeps its entries in the order in which the keys were first set;
  setting a key that is present replaces the value and leaves the position.
\<close>

fun map_set :: "'k \<Rightarrow> 'v \<Rightarrow> ('k \<times> 'v) list \<Rightarrow> ('k \<times> 'v) list" where
  "map_set k v [] = [(k, v)]"
| "map_set k v ((k', v') # m) =
     (if k' = k then (k, v) # m else (k', v') # map_set k v m)"

definition map_get :: "('k \<times> 'v) list \<Rightarrow> 'k \<Rightarrow> 'v option" where
  "map_get m k = map_of m k"

text \<open>
  The body of the inner \<^verbatim>\<open>forEach\<close>:
  \<^verbatim>\<open>
  const normalizedLabel = normalizeLabel(label);
  if (normalizedLabel) {
      labelCounts.set(normalizedLabel, (labelCounts.get(normalizedLabel) || 0) + 1);
  }\<close>
\<close>

definition countLabel :: "string \<Rightarrow> (string \<times> nat) list \<Rightarrow> (string \<times> nat) list" where
  "countLabel label labelCounts =
     (let normalizedLabel = normalizeLabel label in
      if normalizedLabel \<noteq> [] then
        map_set normalizedLabel
          ((case map_get labelCounts normalizedLabel of None \<Rightarrow> 0 | Some c \<Rightarrow> c) + 1)
          labelCounts
      else labelCounts)"

text \<open>The two nested \<^verbatim>\<open>forEach\<close> loops, starting from \<^verbatim>\<open>new Map()\<close>.\<close>

definition labelCountsOf :: "item list \<Rightarrow> (string \<times> nat) list" where
  "labelCountsOf items = fold (\<lambda>item. fold countLabel (labels item)) items []"

text \<open>
  \<^verbatim>\<open>Array.prototype.sort(cmp)\<close> is stable: it returns the elements ordered by \<open>cmp\<close>,
  those that compare equal in their previous order. An insertion sort that puts an element
  before the first one it does not exceed, taking the elements from the right, computes that
  list.
\<close>

fun insert_by :: "('a \<Rightarrow> 'a \<Rightarrow> int) \<Rightarrow> 'a \<Rightarrow> 'a list \<Rightarrow> 'a list" where
  "insert_by cmp x [] = [x]"
| "insert_by cmp x (y # ys) =
     (if cmp x y \<le> 0 then x # y # ys else y # insert_by cmp x ys)"

definition sort_by :: "('a \<Rightarrow> 'a \<Rightarrow> int) \<Rightarrow> 'a list \<Rightarrow> 'a list" where
  "sort_by cmp xs = foldr (insert_by cmp) xs []"

text \<open>\<^verbatim>\<open>[...labelCounts.entries()].sort((a, b) => b[1] - a[1])\<close> in \<^verbatim>\<open>updateAndRenderStats\<close>.\<close>

definition sortedLabels :: "item list \<Rightarrow> (string \<times> nat) list" where
  "sortedLabels items =
     sort_by (\<lambda>a b. int (snd b) - int (snd a)) (labelCountsOf items)"

text \<open>
  \<^verbatim>\<open>Array.from(labelCounts.entries()).map(([label, count]) => ({ Label: label, Count: count }))
       .sort((a, b) => b.Count - a.Count)\<close> in \<^verbatim>\<open>generateAndDownloadExplodedExcel\<close>.
\<close>

definition countsData :: "item list \<Rightarrow> row list" where
  "countsData items =
     sort_by (\<lambda>a b. int (Count b) - int (Count a))
       (map (\<lambda>(label, count). CountRow label count) (labelCountsOf items))"


section \<open>The analyse handler\<close>

definition BATCH_SIZE :: nat where
  "BATCH_SIZE = 250"

text \<open>
  \<^verbatim>\<open>Math.ceil(feedbackLines.length / BATCH_SIZE)\<close>, in integer arithmetic; it is the
  ceiling of the quotient (lemma \<open>ceilDiv_ceiling\<close>).
\<close>

definition ceilDiv :: "nat \<Rightarrow> nat \<Rightarrow> nat" where
  "ceilDiv n b = (n + b - 1) div b"

definition promptHeader :: string where
  "promptHeader =
     ''Analyze each line of the following customer feedback individually. '' @
     ''Return a JSON array where each object corresponds to a single line of feedback from the input. '' @
     ''Do not skip, merge, or alter any lines. Each object must contain two keys: '' @
     [CHR 0x27] @ ''feedback'' @ [CHR 0x27] @
     '' (the original, unmodified text of the feedback line) and '' @
     [CHR 0x27] @ ''labels'' @ [CHR 0x27] @
     '' (an array of relevant string labels, e.g., 'Bug Report', 'Feature Request').'' @
     [newline, newline] @ ''---FEEDBACK---'' @ [newline]"

definition promptFor :: "string \<Rightarrow> string" where
  "promptFor batchText = promptHeader @ batchText"

text \<open>\<^verbatim>\<open>({ ...item, isIncorrect: false })\<close>\<close>

definition tagItem :: "item \<Rightarrow> item" where
  "tagItem it = it\<lparr>isIncorrect := Some False\<rparr>"

text \<open>How a block ends: normally, or by a thrown exception; either way with the state reached.\<close>

datatype 's completion = Normal 's | Thrown 's

text \<open>
  The loop \<^verbatim>\<open>for (let i = 0; i < totalBatches; i++) { ... }\<close> of the \<^verbatim>\<open>try\<close> block, from
  index \<open>i\<close> on. The response to a call is consumed before the next iteration starts.
\<close>

function batchLoop ::
  "service \<Rightarrow> string list \<Rightarrow> nat \<Rightarrow> nat \<Rightarrow> session \<Rightarrow> session completion" where
  "batchLoop svc feedbackLines totalBatches i s =
     (if i < totalBatches then
        (let batchStart = i * BATCH_SIZE;
             batchEnd = batchStart + BATCH_SIZE;
             batchLines = slice batchStart batchEnd feedbackLines;
             batchText = join [newline] batchLines;
             s1 = s\<lparr>statusMessage := Processing (i + 1) totalBatches\<rparr>;
             prompt = promptFor batchText;
             s2 = s1\<lparr>calls := calls s1 @ [prompt]\<rparr>
         in case svc i prompt of
              Fails \<Rightarrow> Thrown s2
            | NoItems \<Rightarrow> batchLoop svc feedbackLines totalBatches (i + 1) s2
            | Items labeledFeedbackBatch \<Rightarrow>
                batchLoop svc feedbackLines totalBatches (i + 1)
                  (if labeledFeedbackBatch \<noteq> [] then
                     s2\<lparr>analysisResults :=
                          analysisResults s2 @ map tagItem labeledFeedbackBatch\<rparr>
                   else s2))
      else Normal s)"
  by pat_completeness auto
termination
  by (relation "measure (\<lambda>(svc, feedbackLines, totalBatches, i, s). totalBatches - i)") auto

definition checkInputs :: "session \<Rightarrow> session" where
  "checkInputs s = s\<lparr>analyzeButtonDisabled := (trim (feedbackInput s) = [])\<rparr>"

definition renderResultsTable :: "session \<Rightarrow> session" where
  "renderResultsTable s =
     (let s1 = s\<lparr>resultsTableContainer := EmptyContainer\<rparr> in
      if analysisResults s1 = [] then s1
      else s1\<lparr>resultsTableContainer := ResultsTable (analysisResults s1)\<rparr>)"

definition updateAndRenderStats :: "session \<Rightarrow> session" where
  "updateAndRenderStats s =
     (let labelCounts = labelCountsOf (analysisResults s);
          s1 = s\<lparr>labelCountsSummary := []\<rparr>
      in if labelCounts = [] then s1\<lparr>labelCountsSummaryHidden := True\<rparr>
         else s1\<lparr>labelCountsSummaryHidden := False,
                 labelCountsSummary := sortedLabels (analysisResults s)\<rparr>)"

text \<open>The click handler of \<^verbatim>\<open>analyzeButton\<close>.\<close>

definition analyzeButtonClick :: "service \<Rightarrow> session \<Rightarrow> session" where
  "analyzeButtonClick svc s =
     (let feedbackText = trim (feedbackInput s) in
      if feedbackText = [] then s
      else
        (let s0 = s\<lparr>resultsTableContainer := EmptyContainer,
                     resultsHeaderHidden := True,
                     exportButtonDisabled := True,
                     exportExplodedButtonDisabled := True,
                     loadingSpinnerHidden := False,
                     analyzeButtonDisabled := True,
                     statusMessage := Blank,
                     statusError := False,
                     labelCountsSummary := [],
                     labelCountsSummaryHidden := True,
                     analysisResults := []\<rparr>;
             feedbackLines = filter (\<lambda>line. trim line \<noteq> []) (split_lines feedbackText);
             totalBatches = ceilDiv (length feedbackLines) BATCH_SIZE;
             s3 = (case batchLoop svc feedbackLines totalBatches 0 s0 of
                     Normal s1 \<Rightarrow>
                       (if length (analysisResults s1) > 0 then
                          (let s2 = updateAndRenderStats (renderResultsTable
                                      (s1\<lparr>statusMessage := Complete (length (analysisResults s1))\<rparr>))
                           in s2\<lparr>resultsHeaderHidden := False,
                                  exportButtonDisabled := False,
                                  exportExplodedButtonDisabled := False\<rparr>)
                        else s1\<lparr>statusMessage := NoFeedback\<rparr>)
                   | Thrown s1 \<Rightarrow>
                       s1\<lparr>statusMessage := ErrorOccurred,
                           statusError := True,
                           resultsTableContainer := ErrorParagraph\<rparr>)
         in checkInputs (s3\<lparr>loadingSpinnerHidden := True\<rparr>)))"


section \<open>The export builders\<close>

definition yesNo :: "item \<Rightarrow> string" where
  "yesNo it = (if isIncorrect it = Some True then ''Yes'' else ''No'')"

definition compiledData :: "item list \<Rightarrow> row list" where
  "compiledData labeledFeedback =
     map (\<lambda>it. CompiledRow (feedback it) (join '', '' (labels it)) (yesNo it)) labeledFeedback"

text \<open>The body of the outer \<^verbatim>\<open>forEach\<close> that fills \<^verbatim>\<open>explodedData\<close>.\<close>

definition pushExploded :: "item \<Rightarrow> row list \<Rightarrow> row list" where
  "pushExploded it explodedData =
     (if length (labels it) = 0 then
        explodedData @ [ExplodedRow (feedback it) [] (yesNo it)]
      else
        fold (\<lambda>label acc. acc @ [ExplodedRow (feedback it) label (yesNo it)])
          (labels it) explodedData)"

definition explodedData :: "item list \<Rightarrow> row list" where
  "explodedData labeledFeedback = fold pushExploded labeledFeedback []"

definition generateAndDownloadExcel :: "item list \<Rightarrow> download" where
  "generateAndDownloadExcel labeledFeedback =
     \<lparr>fileName = ''feedback_analysis_results.xlsx'',
      sheets = [(''Feedback Analysis'', compiledData labeledFeedback)]\<rparr>"

definition generateAndDownloadExplodedExcel :: "item list \<Rightarrow> download" where
  "generateAndDownloadExplodedExcel labeledFeedback =
     \<lparr>fileName = ''feedback_analysis_detailed_export.xlsx'',
      sheets = [(''Exploded by Label'', explodedData labeledFeedback),
                (''Compiled View'', compiledData labeledFeedback),
                (''Label Counts'', countsData labeledFeedback)]\<rparr>"

text \<open>
  The click handlers of the two export buttons, on the records as values. What the
  builders write to the objects behind the records is the subject of the next section.
\<close>

definition exportButtonClick :: "session \<Rightarrow> session" where
  "exportButtonClick s =
     (if length (analysisResults s) > 0 then
        s\<lparr>downloads := downloads s @ [generateAndDownloadExcel (analysisResults s)]\<rparr>
      else s)"

definition exportExplodedButtonClick :: "session \<Rightarrow> session" where
  "exportExplodedButtonClick s =
     (if length (analysisResults s) > 0 then
        s\<lparr>downloads := downloads s @ [generateAndDownloadExplodedExcel (analysisResults s)]\<rparr>
      else s)"

section \<open>The export builders on a store\<close>

text \<open>
  In the program the records are objects: \<^verbatim>\<open>analysisResults\<close> is an array of references to
  record objects, and a record object holds its text, a reference to its array of labels
  and its flag. To say what the builders write, they are run here on a store, a list of
  objects addressed by position. An object is a record, an array of strings, an array of
  record references, an array of sheet rows, an array of map entries, or a \<^verbatim>\<open>Map\<close>.
\<close>

type_synonym addr = nat

datatype obj =
    ItemObj string addr "bool option"
  | StrArr "string list"
  | ItemArr "addr list"
  | RowArr "row list"
  | EntryArr "(string \<times> nat) list"
  | MapObj "(string \<times> nat) list"

type_synonym heap = "obj list"

text \<open>Reading an address, creating an object, and writing an object in place.\<close>

definition lookup :: "heap \<Rightarrow> addr \<Rightarrow> obj option" where
  "lookup h a = (if a < length h then Some (h ! a) else None)"

definition alloc :: "obj \<Rightarrow> heap \<Rightarrow> addr \<times> heap" where
  "alloc v h = (length h, h @ [v])"

definition overwrite :: "addr \<Rightarrow> obj \<Rightarrow> heap \<Rightarrow> heap" where
  "overwrite a v h = h[a := v]"

text \<open>Reading an object of the expected kind; \<open>None\<close> when the address holds something else.\<close>

definition itemArray :: "heap \<Rightarrow> addr \<Rightarrow> addr list option" where
  "itemArray h a = (case lookup h a of Some (ItemArr its) \<Rightarrow> Some its | _ \<Rightarrow> None)"

definition rowArray :: "heap \<Rightarrow> addr \<Rightarrow> row list option" where
  "rowArray h a = (case lookup h a of Some (RowArr rs) \<Rightarrow> Some rs | _ \<Rightarrow> None)"

definition strArray :: "heap \<Rightarrow> addr \<Rightarrow> string list option" where
  "strArray h a = (case lookup h a of Some (StrArr ls) \<Rightarrow> Some ls | _ \<Rightarrow> None)"

definition mapEntries :: "heap \<Rightarrow> addr \<Rightarrow> (string \<times> nat) list option" where
  "mapEntries h a = (case lookup h a of Some (MapObj m) \<Rightarrow> Some m | _ \<Rightarrow> None)"

text \<open>\<^verbatim>\<open>item.feedback\<close>, \<^verbatim>\<open>item.labels\<close> and \<^verbatim>\<open>item.isIncorrect\<close> of the record at an address.\<close>

definition readItem :: "heap \<Rightarrow> addr \<Rightarrow> item option" where
  "readItem h it =
     (case lookup h it of
        Some (ItemObj f la inc) \<Rightarrow>
          do { ls \<leftarrow> strArray h la;
               Some \<lparr>feedback = f, labels = ls, isIncorrect = inc\<rparr> }
      | _ \<Rightarrow> None)"

text \<open>
  \<^verbatim>\<open>xs.forEach(f)\<close> over the elements \<open>xs\<close> has when the call starts; the callback gets the
  store the previous callback left.
\<close>

fun forEachH :: "('a \<Rightarrow> heap \<Rightarrow> heap option) \<Rightarrow> 'a list \<Rightarrow> heap \<Rightarrow> heap option" where
  "forEachH f [] h = Some h"
| "forEachH f (x # xs) h = do { h' \<leftarrow> f x h; forEachH f xs h' }"

text \<open>\<^verbatim>\<open>arr.push(row)\<close> writes the array it is called on.\<close>

definition pushRow :: "addr \<Rightarrow> row \<Rightarrow> heap \<Rightarrow> heap option" where
  "pushRow arr r h =
     do { rs \<leftarrow> rowArray h arr; Some (overwrite arr (RowArr (rs @ [r])) h) }"

text \<open>
  The callbacks of the two loops that fill \<^verbatim>\<open>explodedData\<close>; each reads the record again
  when it runs.
\<close>

definition pushLabelRowH :: "addr \<Rightarrow> addr \<Rightarrow> string \<Rightarrow> heap \<Rightarrow> heap option" where
  "pushLabelRowH explodedArr it label h =
     do { item \<leftarrow> readItem h it;
          pushRow explodedArr (ExplodedRow (feedback item) label (yesNo item)) h }"

definition pushExplodedH :: "addr \<Rightarrow> addr \<Rightarrow> heap \<Rightarrow> heap option" where
  "pushExplodedH explodedArr it h =
     do { item \<leftarrow> readItem h it;
          if length (labels item) = 0 then
            pushRow explodedArr (ExplodedRow (feedback item) [] (yesNo item)) h
          else forEachH (pushLabelRowH explodedArr it) (labels item) h }"

text \<open>The callback of \<^verbatim>\<open>labeledFeedback.map(...)\<close> that builds a compiled row.\<close>

definition compiledRowH :: "heap \<Rightarrow> addr \<Rightarrow> row option" where
  "compiledRowH h it =
     do { item \<leftarrow> readItem h it;
          Some (CompiledRow (feedback item) (join '', '' (labels item)) (yesNo item)) }"

text \<open>
  The callbacks of the two loops that count: \<^verbatim>\<open>labelCounts.get\<close> reads the map and
  \<^verbatim>\<open>labelCounts.set\<close> writes it.
\<close>

definition countLabelH :: "addr \<Rightarrow> string \<Rightarrow> heap \<Rightarrow> heap option" where
  "countLabelH labelCounts label h =
     do { m \<leftarrow> mapEntries h labelCounts;
          Some (overwrite labelCounts (MapObj (countLabel label m)) h) }"

definition countItemH :: "addr \<Rightarrow> addr \<Rightarrow> heap \<Rightarrow> heap option" where
  "countItemH labelCounts it h =
     do { item \<leftarrow> readItem h it; forEachH (countLabelH labelCounts) (labels item) h }"

text \<open>
  \<^verbatim>\<open>generateAndDownloadExcel\<close>: \<^verbatim>\<open>map\<close> creates the array \<^verbatim>\<open>dataForSheet\<close>, and the
  spreadsheet writer is handed that array.
\<close>

definition generateAndDownloadExcelH :: "addr \<Rightarrow> heap \<Rightarrow> (download \<times> heap) option" where
  "generateAndDownloadExcelH labeledFeedback h =
     do { its \<leftarrow> itemArray h labeledFeedback;
          rows \<leftarrow> those (map (compiledRowH h) its);
          let (dataForSheet, h1) = alloc (RowArr rows) h;
          sheet \<leftarrow> rowArray h1 dataForSheet;
          Some (\<lparr>fileName = ''feedback_analysis_results.xlsx'',
                 sheets = [(''Feedback Analysis'', sheet)]\<rparr>, h1) }"

text \<open>
  \<^verbatim>\<open>generateAndDownloadExplodedExcel\<close>, statement by statement: the empty array
  \<^verbatim>\<open>explodedData\<close> and the pushes to it; \<^verbatim>\<open>compiledData\<close> created by \<^verbatim>\<open>map\<close>; the new
  \<^verbatim>\<open>Map\<close> and the counting; \<^verbatim>\<open>Array.from\<close> and \<^verbatim>\<open>map\<close>, which create two arrays, and
  \<^verbatim>\<open>sort\<close>, which writes the second of them in place.
\<close>

definition generateAndDownloadExplodedExcelH :: "addr \<Rightarrow> heap \<Rightarrow> (download \<times> heap) option" where
  "generateAndDownloadExplodedExcelH labeledFeedback h =
     do { let (explodedArr, h1) = alloc (RowArr []) h;
          its \<leftarrow> itemArray h1 labeledFeedback;
          h2 \<leftarrow> forEachH (pushExplodedH explodedArr) its h1;
          explodedSheet \<leftarrow> rowArray h2 explodedArr;
          its \<leftarrow> itemArray h2 labeledFeedback;
          rows \<leftarrow> those (map (compiledRowH h2) its);
          let (compiledArr, h3) = alloc (RowArr rows) h2;
          compiledSheet \<leftarrow> rowArray h3 compiledArr;
          let (labelCounts, h4) = alloc (MapObj []) h3;
          its \<leftarrow> itemArray h4 labeledFeedback;
          h5 \<leftarrow> forEachH (countItemH labelCounts) its h4;
          entries \<leftarrow> mapEntries h5 labelCounts;
          let (entriesArray, h6) = alloc (EntryArr entries) h5;
          let (countsArr, h7) =
                alloc (RowArr (map (\<lambda>(label, count). CountRow label count) entries)) h6;
          unsorted \<leftarrow> rowArray h7 countsArr;
          let h8 = overwrite countsArr
                     (RowArr (sort_by (\<lambda>a b. int (Count b) - int (Count a)) unsorted)) h7;
          countsSheet \<leftarrow> rowArray h8 countsArr;
          Some (\<lparr>fileName = ''feedback_analysis_detailed_export.xlsx'',
                 sheets = [(''Exploded by Label'', explodedSheet),
                           (''Compiled View'', compiledSheet),
                           (''Label Counts'', countsSheet)]\<rparr>, h8) }"

text \<open>The records an array of record references stands for.\<close>

definition readItems :: "heap \<Rightarrow> addr \<Rightarrow> item list option" where
  "readItems h a = do { its \<leftarrow> itemArray h a; those (map (readItem h) its) }"


section \<open>Notions used in the statements\<close>

text \<open>
  The definitions of this section are not functions of the source; they name what the
  properties below talk about.
\<close>

text \<open>All labels of all records, in scan order, and the keys the counting loop sets.\<close>

definition allLabels :: "item list \<Rightarrow> string list" where
  "allLabels items = concat (map labels items)"

definition normalizedLabels :: "item list \<Rightarrow> string list" where
  "normalizedLabels items = filter (\<lambda>k. k \<noteq> []) (map normalizeLabel (allLabels items))"

text \<open>
  The order in which the elements of a list are first met when it is read from the left.
\<close>

definition firstSeenOrder :: "'a list \<Rightarrow> 'a list" where
  "firstSeenOrder xs = fold (\<lambda>x seen. if x \<in> set seen then seen else seen @ [x]) xs []"

text \<open>
  The lines of iteration \<open>i\<close> of the loop, the prompt sent in that iteration, and the list
  of all chunks the loop goes through.
\<close>

definition batchLinesAt :: "string list \<Rightarrow> nat \<Rightarrow> string list" where
  "batchLinesAt feedbackLines i = slice (i * BATCH_SIZE) (i * BATCH_SIZE + BATCH_SIZE) feedbackLines"

definition batchPrompt :: "string list \<Rightarrow> nat \<Rightarrow> string" where
  "batchPrompt feedbackLines i = promptFor (join [newline] (batchLinesAt feedbackLines i))"


text \<open>The records one response adds to \<^verbatim>\<open>analysisResults\<close>.\<close>

definition pushed :: "response \<Rightarrow> item list" where
  "pushed r = (case r of Items labeledFeedbackBatch \<Rightarrow> map tagItem labeledFeedbackBatch | _ \<Rightarrow> [])"

text \<open>The \<^verbatim>\<open>feedbackLines\<close> the handler computes from the text area.\<close>

definition feedbackLinesOf :: "string \<Rightarrow> string list" where
  "feedbackLinesOf text = filter (\<lambda>line. trim line \<noteq> []) (split_lines (trim text))"

text \<open>A store \<open>h\<close> begins with the store \<open>h0\<close>: every object of \<open>h0\<close> is in \<open>h\<close>, unchanged.\<close>

definition keeps :: "heap \<Rightarrow> heap \<Rightarrow> bool" where
  "keeps h0 h \<longleftrightarrow> take (length h0) h = h0"

text \<open>The rows of the exploded sheet that come from one record.\<close>

definition explodedRowsOf :: "item \<Rightarrow> row list" where
  "explodedRowsOf it =
     (if labels it = [] then [ExplodedRow (feedback it) [] (yesNo it)]
      else map (\<lambda>label. ExplodedRow (feedback it) label (yesNo it)) (labels it))"

section \<open>Example inputs\<close>

text \<open>
  A page with an empty text area and no results, 251 feedback lines (two batches), and
  three services: one whose second call fails, one that answers every batch with a single
  record, and one that answers every batch with the empty array.
\<close>

definition examplePage :: session where
  "examplePage =
     \<lparr>feedbackInput = [], analysisResults = [], statusMessage = Blank, statusError = False,
      resultsTableContainer = EmptyContainer, resultsHeaderHidden = True,
      exportButtonDisabled = True, exportExplodedButtonDisabled = True,
      loadingSpinnerHidden = True, analyzeButtonDisabled = True,
      labelCountsSummary = [], labelCountsSummaryHidden = True,
      calls = [], downloads = []\<rparr>"

definition exampleItem :: item where
  "exampleItem = \<lparr>feedback = ''a'', labels = [''Positive''], isIncorrect = None\<rparr>"

definition exampleLines :: "string list" where
  "exampleLines = replicate 250 ''a'' @ [''b'']"

definition exampleSession :: session where
  "exampleSession = examplePage\<lparr>feedbackInput := join [newline] exampleLines\<rparr>"

definition failsSecond :: service where
  "failsSecond i prompt = (if i = 0 then Items [exampleItem] else Fails)"

definition returnsOne :: service where
  "returnsOne i prompt = Items [exampleItem]"

definition returnsNothing :: service where
  "returnsNothing i prompt = Items []"

definition exampleRecords :: "item list" where
  "exampleRecords =
     [\<lparr>feedback = ''a'', labels = [''Bug'', ''#Bug'', ''UI''], isIncorrect = Some False\<rparr>,
      \<lparr>feedback = ''b'', labels = [], isIncorrect = Some True\<rparr>,
      \<lparr>feedback = ''c'', labels = [''Slow'', '' ui ''], isIncorrect = None\<rparr>,
      \<lparr>feedback = ''d'', labels = [''Crash'', ''slow'', ''Idea''], isIncorrect = None\<rparr>]"


definition exampleHeap :: heap where
  "exampleHeap =
     [StrArr [''Bug'', ''#Bug'', ''UI''], ItemObj ''a'' 0 (Some False),
      StrArr [], ItemObj ''b'' 2 (Some True),
      StrArr [''Slow'', '' ui ''], ItemObj ''c'' 4 None,
      StrArr [''Crash'', ''slow'', ''Idea''], ItemObj ''d'' 6 None,
      ItemArr [1, 3, 5, 7]]"

section \<open>Facts about strings\<close>












section \<open>Facts about sorting and counting\<close>

lemma mset_insert_by: "mset (insert_by cmp x xs) = add_mset x (mset xs)"
  by (induction xs) auto

lemma mset_sort_by: "mset (sort_by cmp xs) = mset xs"
  by (induction xs) (auto simp: sort_by_def mset_insert_by)

lemma set_insert_by: "set (insert_by cmp x xs) = insert x (set xs)"
  by (induction xs) auto

lemma sorted_insert_by:
  "sorted_wrt (\<lambda>a b. f b \<le> f a) xs \<Longrightarrow>
   sorted_wrt (\<lambda>a b. (f b :: nat) \<le> f a) (insert_by (\<lambda>a b. int (f b) - int (f a)) x xs)"
  by (induction xs) (auto simp: set_insert_by)

lemma sorted_sort_by:
  "sorted_wrt (\<lambda>a b. (f b :: nat) \<le> f a) (sort_by (\<lambda>a b. int (f b) - int (f a)) xs)"
  by (induction xs) (auto simp: sort_by_def sorted_insert_by)

lemma filter_insert_by:
  "filter (\<lambda>e. f e = c) (insert_by (\<lambda>a b. int (f b) - int (f a)) x xs) =
     (if f x = (c :: nat) then x # filter (\<lambda>e. f e = c) xs else filter (\<lambda>e. f e = c) xs)"
  by (induction xs) auto

lemma filter_sort_by:
  "filter (\<lambda>e. f e = (c :: nat)) (sort_by (\<lambda>a b. int (f b) - int (f a)) xs) =
   filter (\<lambda>e. f e = c) xs"
  by (induction xs) (auto simp: sort_by_def filter_insert_by)

lemma insert_by_map:
  "(\<And>a b. cmp' (g a) (g b) = cmp a b) \<Longrightarrow>
   insert_by cmp' (g x) (map g xs) = map g (insert_by cmp x xs)"
  by (induction xs) auto

lemma sort_by_map:
  assumes "\<And>a b. cmp' (g a) (g b) = cmp a b"
  shows "sort_by cmp' (map g xs) = map g (sort_by cmp xs)"
proof (induction xs)
  case Nil
  show ?case by (simp add: sort_by_def)
next
  case (Cons x xs)
  have "sort_by cmp' (map g (x # xs)) = insert_by cmp' (g x) (sort_by cmp' (map g xs))"
    by (simp add: sort_by_def)
  also have "\<dots> = insert_by cmp' (g x) (map g (sort_by cmp xs))"
    by (simp only: Cons.IH)
  also have "\<dots> = map g (insert_by cmp x (sort_by cmp xs))"
    using assms by (rule insert_by_map)
  finally show ?case by (simp add: sort_by_def)
qed

lemma countsData_sortedLabels:
  "countsData items = map (\<lambda>(label, count). CountRow label count) (sortedLabels items)"
  unfolding countsData_def sortedLabels_def
  by (rule sort_by_map) (auto split: prod.splits)

lemma sum_map_set:
  "sum_list (map snd (map_set k (Suc (case map_get m k of None \<Rightarrow> 0 | Some c \<Rightarrow> c)) m)) =
   Suc (sum_list (map snd m))"
  by (induction m) (auto simp: map_get_def)

lemma sum_countLabel:
  "sum_list (map snd (countLabel l m)) =
   sum_list (map snd m) + (if normalizeLabel l \<noteq> [] then 1 else 0)"
  by (simp add: countLabel_def Let_def sum_map_set)

lemma fold_countLabel_items:
  "fold (\<lambda>item. fold countLabel (labels item)) items m =
   fold countLabel (concat (map labels items)) m"
  by (induction items arbitrary: m) auto

lemma labelCountsOf_fold: "labelCountsOf items = fold countLabel (allLabels items) []"
  by (simp add: labelCountsOf_def allLabels_def fold_countLabel_items)

lemma sum_fold_countLabel:
  "sum_list (map snd (fold countLabel ls m)) =
   sum_list (map snd m) + length (filter (\<lambda>l. normalizeLabel l \<noteq> []) ls)"
  by (induction ls arbitrary: m) (auto simp: sum_countLabel)

lemma sum_labelCountsOf:
  "sum_list (map snd (labelCountsOf items)) =
   length (filter (\<lambda>l. normalizeLabel l \<noteq> []) (allLabels items))"
  by (simp add: labelCountsOf_fold sum_fold_countLabel)

lemma sum_sortedLabels:
  "sum_list (map snd (sortedLabels items)) = sum_list (map snd (labelCountsOf items))"
proof -
  have "mset (map snd (sortedLabels items)) = mset (map snd (labelCountsOf items))"
    by (simp add: sortedLabels_def mset_sort_by)
  then show ?thesis by (metis sum_mset_sum_list)
qed

lemma Count_countsData: "map Count (countsData items) = map snd (sortedLabels items)"
  by (simp add: countsData_sortedLabels case_prod_beta comp_def)

lemma firstSeenOrder_snoc:
  "firstSeenOrder (xs @ [x]) =
     (if x \<in> set (firstSeenOrder xs) then firstSeenOrder xs else firstSeenOrder xs @ [x])"
  by (simp add: firstSeenOrder_def)

lemma firstSeenOrder_Nil: "firstSeenOrder [] = []"
  by (simp add: firstSeenOrder_def)

lemma set_firstSeenOrder: "set (firstSeenOrder xs) = set xs"
  by (induction xs rule: rev_induct) (auto simp: firstSeenOrder_snoc firstSeenOrder_Nil)

lemma distinct_firstSeenOrder: "distinct (firstSeenOrder xs)"
  by (induction xs rule: rev_induct) (auto simp: firstSeenOrder_snoc firstSeenOrder_Nil)

lemma map_get_tabulate:
  "map_get (map (\<lambda>k. (k, f k)) ks) k = (if k \<in> set ks then Some (f k) else None)"
  by (induction ks) (auto simp: map_get_def)

lemma map_set_tabulate:
  "distinct ks \<Longrightarrow>
   map_set k v (map (\<lambda>k'. (k', f k')) ks) =
     (if k \<in> set ks then map (\<lambda>k'. (k', if k' = k then v else f k')) ks
      else map (\<lambda>k'. (k', f k')) ks @ [(k, v)])"
  by (induction ks) auto

lemma fold_countLabel_snoc: "fold countLabel (ls @ [l]) m = countLabel l (fold countLabel ls m)"
  by simp

lemma fold_countLabel_tabulate:
  "fold countLabel ls [] =
   map (\<lambda>k. (k, count_list (filter (\<lambda>k. k \<noteq> []) (map normalizeLabel ls)) k))
     (firstSeenOrder (filter (\<lambda>k. k \<noteq> []) (map normalizeLabel ls)))"
proof (induction ls rule: rev_induct)
  case Nil
  show ?case by (simp add: firstSeenOrder_Nil)
next
  case (snoc l ls)
  let ?ks = "filter (\<lambda>k. k \<noteq> []) (map normalizeLabel ls)"
  let ?n = "normalizeLabel l"
  show ?case
  proof (cases "?n = []")
    case True
    then show ?thesis using snoc.IH by (simp add: countLabel_def)
  next
    case False
    have ks': "filter (\<lambda>k. k \<noteq> []) (map normalizeLabel (ls @ [l])) = ?ks @ [?n]"
      using False by simp
    have "fold countLabel (ls @ [l]) [] = countLabel l (fold countLabel ls [])"
      by (rule fold_countLabel_snoc)
    also have "\<dots> = countLabel l (map (\<lambda>k. (k, count_list ?ks k)) (firstSeenOrder ?ks))"
      by (simp only: snoc.IH)
    also have "\<dots> = map (\<lambda>k. (k, count_list (?ks @ [?n]) k)) (firstSeenOrder (?ks @ [?n]))"
    proof (cases "?n \<in> set ?ks")
      case True
      then show ?thesis
        using False
        by (simp add: countLabel_def Let_def map_get_tabulate map_set_tabulate
            distinct_firstSeenOrder set_firstSeenOrder firstSeenOrder_snoc)
    next
      case notin: False
      then have "count_list ?ks ?n = 0" by (simp only: count_list_0_iff not_False_eq_True)
      moreover have "map (\<lambda>k. (k, count_list ?ks k + (if ?n = k then 1 else 0))) (firstSeenOrder ?ks)
            = map (\<lambda>k. (k, count_list ?ks k)) (firstSeenOrder ?ks)"
        using notin by (intro map_cong) (auto simp: set_firstSeenOrder)
      ultimately show ?thesis
        using False notin
        by (simp add: countLabel_def Let_def map_get_tabulate map_set_tabulate
            distinct_firstSeenOrder set_firstSeenOrder firstSeenOrder_snoc)
    qed
    finally show ?thesis by (simp only: ks')
  qed
qed

lemma labelCountsOf_tabulate:
  "labelCountsOf items =
   map (\<lambda>k. (k, count_list (normalizedLabels items) k)) (firstSeenOrder (normalizedLabels items))"
  by (simp only: labelCountsOf_fold normalizedLabels_def fold_countLabel_tabulate)

lemma filter_sortedLabels:
  "filter (\<lambda>e. snd e = c) (sortedLabels items) = filter (\<lambda>e. snd e = c) (labelCountsOf items)"
  unfolding sortedLabels_def by (rule filter_sort_by)

lemma sorted_sortedLabels: "sorted_wrt (\<lambda>a b. snd b \<le> snd a) (sortedLabels items)"
  unfolding sortedLabels_def by (rule sorted_sort_by)

lemma ties_sortedLabels:
  "map fst (filter (\<lambda>e. snd e = c) (sortedLabels items)) =
   filter (\<lambda>k. count_list (normalizedLabels items) k = c) (firstSeenOrder (normalizedLabels items))"
  by (simp add: filter_sortedLabels labelCountsOf_tabulate filter_map comp_def)

lemma ties_countsData:
  "map Label (filter (\<lambda>r. Count r = c) (countsData items)) =
   map fst (filter (\<lambda>e. snd e = c) (sortedLabels items))"
  by (simp add: countsData_sortedLabels filter_map comp_def case_prod_beta)

section \<open>Facts about the batch loop\<close>

text \<open>
  The loop is total (its termination is proved with the definition). It ends normally when
  no call fails, and by the exception of the first failing call otherwise; in both cases the
  state it ends in is determined. The defining equation is used through the two lemmas
  \<open>batchLoop_done\<close> and \<open>batchLoop_step\<close> only.
\<close>

declare batchLoop.simps [simp del]

lemma batchLoop_done: "\<not> i < tot \<Longrightarrow> batchLoop svc ls tot i s = Normal s"
  by (simp add: batchLoop.simps)

lemma batchLoop_step:
  "i < tot \<Longrightarrow>
   batchLoop svc ls tot i s =
     (case svc i (batchPrompt ls i) of
        Fails \<Rightarrow> Thrown (s\<lparr>statusMessage := Processing (Suc i) tot,
                             calls := calls s @ [batchPrompt ls i]\<rparr>)
      | r \<Rightarrow> batchLoop svc ls tot (Suc i)
                (s\<lparr>statusMessage := Processing (Suc i) tot,
                   calls := calls s @ [batchPrompt ls i],
                   analysisResults := analysisResults s @ pushed r\<rparr>))"
  by (subst batchLoop.simps)
     (simp add: Let_def batchPrompt_def batchLinesAt_def pushed_def split: response.splits)

lemma batchLoop_Normal:
  assumes "\<forall>j. i \<le> j \<and> j < tot \<longrightarrow> svc j (batchPrompt ls j) \<noteq> Fails"
  shows "batchLoop svc ls tot i s =
           Normal (s\<lparr>statusMessage := (if i < tot then Processing tot tot else statusMessage s),
                     calls := calls s @ map (batchPrompt ls) [i..<tot],
                     analysisResults := analysisResults s @
                       concat (map (\<lambda>j. pushed (svc j (batchPrompt ls j))) [i..<tot])\<rparr>)"
  using assms
proof (induction "tot - i" arbitrary: i s)
  case 0
  then show ?case by (simp add: batchLoop_done)
next
  case (Suc n)
  then have lt: "i < tot" by simp
  have ok: "svc i (batchPrompt ls i) \<noteq> Fails" using Suc.prems lt by simp
  have n: "n = tot - (Suc i)" using Suc.hyps(2) by simp
  have rest: "\<forall>j. Suc i \<le> j \<and> j < tot \<longrightarrow> svc j (batchPrompt ls j) \<noteq> Fails"
    using Suc.prems by simp
  note IH = Suc.hyps(1) [OF n rest]
  have upt: "[i..<tot] = i # [Suc i..<tot]" using lt by (simp add: upt_conv_Cons)
  show ?case
    using ok lt
    by (simp add: batchLoop_step IH upt split: response.splits)
qed

lemma batchLoop_Thrown:
  assumes "i \<le> k" "k < tot" "svc k (batchPrompt ls k) = Fails"
    and "\<forall>j. i \<le> j \<and> j < k \<longrightarrow> svc j (batchPrompt ls j) \<noteq> Fails"
  shows "batchLoop svc ls tot i s =
           Thrown (s\<lparr>statusMessage := Processing (Suc k) tot,
                     calls := calls s @ map (batchPrompt ls) [i..<Suc k],
                     analysisResults := analysisResults s @
                       concat (map (\<lambda>j. pushed (svc j (batchPrompt ls j))) [i..<k])\<rparr>)"
  using assms
proof (induction "k - i" arbitrary: i s)
  case 0
  then have ik: "i = k" by simp
  have lt: "i < tot" using 0 by simp
  show ?case using 0 by (simp add: batchLoop_step ik)
next
  case (Suc n)
  then have ltk: "i < k" by simp
  then have lt: "i < tot" using Suc.prems by simp
  have ok: "svc i (batchPrompt ls i) \<noteq> Fails" using Suc.prems ltk by simp
  have n: "n = k - (Suc i)" using Suc.hyps(2) by simp
  have le: "Suc i \<le> k" using ltk by simp
  have rest: "\<forall>j. Suc i \<le> j \<and> j < k \<longrightarrow> svc j (batchPrompt ls j) \<noteq> Fails"
    using Suc.prems by simp
  note IH = Suc.hyps(1) [OF n le Suc.prems(2) Suc.prems(3) rest]
  have upt: "[i..<k] = i # [Suc i..<k]" using ltk by (simp add: upt_conv_Cons)
  have upt': "[i..<Suc k] = i # [Suc i..<Suc k]" using ltk by (simp add: upt_conv_Cons)
  show ?case
    using ok lt ltk
    by (simp add: batchLoop_step IH upt upt' split: response.splits)
qed


section \<open>Facts about the chunks\<close>





lemma length_batchLinesAt:
  "length (batchLinesAt ls i) = min BATCH_SIZE (length ls - i * BATCH_SIZE)"
  by (simp add: batchLinesAt_def slice_def min_def)







section \<open>Facts about the analyse handler\<close>

lemma analyzeButtonClick_Thrown:
  assumes ne: "trim (feedbackInput s) \<noteq> []"
    and ls: "ls = feedbackLinesOf (feedbackInput s)"
    and k: "k < ceilDiv (length ls) BATCH_SIZE"
    and fails: "svc k (batchPrompt ls k) = Fails"
    and before: "\<forall>j. 0 \<le> j \<and> j < k \<longrightarrow> svc j (batchPrompt ls j) \<noteq> Fails"
  shows "analyzeButtonClick svc s =
           s\<lparr>resultsTableContainer := ErrorParagraph,
             resultsHeaderHidden := True,
             exportButtonDisabled := True,
             exportExplodedButtonDisabled := True,
             loadingSpinnerHidden := True,
             analyzeButtonDisabled := False,
             statusMessage := ErrorOccurred,
             statusError := True,
             labelCountsSummary := [],
             labelCountsSummaryHidden := True,
             analysisResults := concat (map (\<lambda>j. pushed (svc j (batchPrompt ls j))) [0..<k]),
             calls := calls s @ map (batchPrompt ls) [0..<Suc k]\<rparr>"
proof -
  have loop: "\<And>s0. batchLoop svc ls (ceilDiv (length ls) BATCH_SIZE) 0 s0 =
           Thrown (s0\<lparr>statusMessage := Processing (Suc k) (ceilDiv (length ls) BATCH_SIZE),
                     calls := calls s0 @ map (batchPrompt ls) [0..<Suc k],
                     analysisResults := analysisResults s0 @
                       concat (map (\<lambda>j. pushed (svc j (batchPrompt ls j))) [0..<k])\<rparr>)"
    using k fails before by (intro batchLoop_Thrown) simp_all
  show ?thesis
    using ne
    by (simp add: analyzeButtonClick_def Let_def feedbackLinesOf_def [symmetric] ls [symmetric]
        loop checkInputs_def)
qed

lemma analyzeButtonClick_Normal:
  assumes ne: "trim (feedbackInput s) \<noteq> []"
    and ls: "ls = feedbackLinesOf (feedbackInput s)"
    and ok: "\<forall>j. 0 \<le> j \<and> j < ceilDiv (length ls) BATCH_SIZE \<longrightarrow> svc j (batchPrompt ls j) \<noteq> Fails"
    and rs: "rs = concat (map (\<lambda>j. pushed (svc j (batchPrompt ls j)))
                    [0..<ceilDiv (length ls) BATCH_SIZE])"
  shows "analyzeButtonClick svc s =
           (if rs = [] then
              s\<lparr>resultsTableContainer := EmptyContainer,
                resultsHeaderHidden := True,
                exportButtonDisabled := True,
                exportExplodedButtonDisabled := True,
                loadingSpinnerHidden := True,
                analyzeButtonDisabled := False,
                statusMessage := NoFeedback,
                statusError := False,
                labelCountsSummary := [],
                labelCountsSummaryHidden := True,
                analysisResults := [],
                calls := calls s @ map (batchPrompt ls) [0..<ceilDiv (length ls) BATCH_SIZE]\<rparr>
            else
              s\<lparr>resultsTableContainer := ResultsTable rs,
                resultsHeaderHidden := False,
                exportButtonDisabled := False,
                exportExplodedButtonDisabled := False,
                loadingSpinnerHidden := True,
                analyzeButtonDisabled := False,
                statusMessage := Complete (length rs),
                statusError := False,
                labelCountsSummary := (if labelCountsOf rs = [] then [] else sortedLabels rs),
                labelCountsSummaryHidden := (labelCountsOf rs = []),
                analysisResults := rs,
                calls := calls s @ map (batchPrompt ls) [0..<ceilDiv (length ls) BATCH_SIZE]\<rparr>)"
proof -
  let ?tot = "ceilDiv (length ls) BATCH_SIZE"
  have loop: "\<And>s0. batchLoop svc ls ?tot 0 s0 =
           Normal (s0\<lparr>statusMessage := (if 0 < ?tot then Processing ?tot ?tot else statusMessage s0),
                     calls := calls s0 @ map (batchPrompt ls) [0..<?tot],
                     analysisResults := analysisResults s0 @
                       concat (map (\<lambda>j. pushed (svc j (batchPrompt ls j))) [0..<?tot])\<rparr>)"
    using ok by (intro batchLoop_Normal) simp
  show ?thesis
    using ne
    by (simp add: analyzeButtonClick_def Let_def feedbackLinesOf_def [symmetric] ls [symmetric]
        loop rs [symmetric] checkInputs_def renderResultsTable_def updateAndRenderStats_def)
qed

section \<open>Facts about the exploded sheet\<close>

lemma fold_snoc_map: "fold (\<lambda>x acc. acc @ [f x]) xs acc = acc @ map f xs"
  by (induction xs arbitrary: acc) auto

lemma pushExploded_append: "pushExploded it acc = acc @ explodedRowsOf it"
  by (simp add: pushExploded_def explodedRowsOf_def fold_snoc_map)

lemma fold_pushExploded: "fold pushExploded items acc = acc @ concat (map explodedRowsOf items)"
  by (induction items arbitrary: acc) (auto simp: pushExploded_append)

lemma explodedData_concat: "explodedData items = concat (map explodedRowsOf items)"
  by (simp add: explodedData_def fold_pushExploded)

lemma length_explodedRowsOf: "length (explodedRowsOf it) = max 1 (length (labels it))"
  by (cases "labels it") (auto simp: explodedRowsOf_def)

section \<open>Facts about the example inputs\<close>

lemma example_lines: "feedbackLinesOf (feedbackInput exampleSession) = exampleLines"
  by code_simp

lemma example_trim: "trim (feedbackInput exampleSession) \<noteq> []"
  by code_simp

lemma example_total: "ceilDiv (length exampleLines) BATCH_SIZE = 2"
  by code_simp




section \<open>Facts about the export builders on a store\<close>

lemma keeps_refl: "keeps h h"
  by (simp add: keeps_def)

lemma keeps_length: "keeps h0 h \<Longrightarrow> length h0 \<le> length h"
proof -
  assume "keeps h0 h"
  then have "length (take (length h0) h) = length h0" by (simp add: keeps_def)
  then show ?thesis by simp
qed

lemma keeps_lookup:
  assumes "keeps h0 h" "a < length h0"
  shows "lookup h a = lookup h0 a"
proof -
  have "take (length h0) h ! a = h ! a" using assms(2) by simp
  then have "h ! a = h0 ! a" using assms(1) by (simp add: keeps_def)
  moreover have "a < length h" using keeps_length [OF assms(1)] assms(2) by simp
  ultimately show ?thesis using assms(2) by (simp add: lookup_def)
qed

lemma keeps_snoc: "keeps h0 h \<Longrightarrow> keeps h0 (h @ [v])"
  using keeps_length [of h0 h] by (simp add: keeps_def)

lemma keeps_overwrite: "keeps h0 h \<Longrightarrow> length h0 \<le> a \<Longrightarrow> keeps h0 (overwrite a v h)"
  by (simp add: keeps_def overwrite_def)

lemma lookup_Some_less: "lookup h a = Some v \<Longrightarrow> a < length h"
  by (simp add: lookup_def split: if_splits)

lemma readItem_keeps:
  assumes "keeps h0 h" "readItem h0 it = Some item"
  shows "readItem h it = Some item"
proof -
  from assms(2) obtain f la inc ls where o: "lookup h0 it = Some (ItemObj f la inc)"
    and l: "lookup h0 la = Some (StrArr ls)"
    and i: "item = \<lparr>feedback = f, labels = ls, isIncorrect = inc\<rparr>"
    by (auto simp: readItem_def strArray_def bind_eq_Some_conv split: option.splits obj.splits)
  have "lookup h it = Some (ItemObj f la inc)"
    using keeps_lookup [OF assms(1) lookup_Some_less [OF o]] o by simp
  moreover have "lookup h la = Some (StrArr ls)"
    using keeps_lookup [OF assms(1) lookup_Some_less [OF l]] l by simp
  ultimately show ?thesis by (simp add: readItem_def strArray_def i)
qed

lemma those_readItem_keeps:
  "keeps h0 h \<Longrightarrow> those (map (readItem h0) its) = Some items \<Longrightarrow>
   those (map (readItem h) its) = Some items"
proof (induction its arbitrary: items)
  case Nil
  then show ?case by simp
next
  case (Cons it its)
  from Cons.prems(2) obtain x xs where x: "readItem h0 it = Some x"
    and xs: "those (map (readItem h0) its) = Some xs" and items: "items = x # xs"
    by (auto split: option.splits)
  from readItem_keeps [OF Cons.prems(1) x] Cons.IH [OF Cons.prems(1) xs] items
  show ?case by simp
qed

lemma itemArray_keeps:
  assumes "keeps h0 h" "itemArray h0 a = Some its"
  shows "itemArray h a = Some its"
proof -
  from assms(2) have l: "lookup h0 a = Some (ItemArr its)"
    by (auto simp: itemArray_def split: option.splits obj.splits)
  then have "lookup h a = Some (ItemArr its)"
    using keeps_lookup [OF assms(1) lookup_Some_less [OF l]] by simp
  then show ?thesis by (simp add: itemArray_def)
qed

lemma readItems_keeps:
  assumes "keeps h0 h" "readItems h0 a = Some items"
  shows "readItems h a = Some items"
proof -
  from assms(2) obtain its where a: "itemArray h0 a = Some its"
    and t: "those (map (readItem h0) its) = Some items"
    by (auto simp: readItems_def bind_eq_Some_conv)
  from itemArray_keeps [OF assms(1) a] those_readItem_keeps [OF assms(1) t]
  show ?thesis by (simp add: readItems_def)
qed


text \<open>Every write of a builder goes to an object the builder has created.\<close>

lemma pushRow_keeps:
  "pushRow a r h = Some h' \<Longrightarrow> keeps h0 h \<Longrightarrow> length h0 \<le> a \<Longrightarrow> keeps h0 h'"
  by (auto simp: pushRow_def bind_eq_Some_conv keeps_overwrite)

lemma forEachH_keeps:
  assumes "\<And>x h h'. f x h = Some h' \<Longrightarrow> keeps h0 h \<Longrightarrow> keeps h0 h'"
  shows "forEachH f xs h = Some h' \<Longrightarrow> keeps h0 h \<Longrightarrow> keeps h0 h'"
proof (induction xs arbitrary: h)
  case Nil
  then show ?case by simp
next
  case (Cons x xs)
  from Cons.prems(1) obtain h1 where 1: "f x h = Some h1" and 2: "forEachH f xs h1 = Some h'"
    by (auto simp: bind_eq_Some_conv)
  from assms [OF 1 Cons.prems(2)] have "keeps h0 h1" .
  from Cons.IH [OF 2 this] show ?case .
qed

lemma pushLabelRowH_keeps:
  "pushLabelRowH a it label h = Some h' \<Longrightarrow> keeps h0 h \<Longrightarrow> length h0 \<le> a \<Longrightarrow> keeps h0 h'"
  by (auto simp: pushLabelRowH_def bind_eq_Some_conv intro: pushRow_keeps)

lemma pushExplodedH_keeps:
  assumes "pushExplodedH a it h = Some h'" "keeps h0 h" "length h0 \<le> a"
  shows "keeps h0 h'"
proof -
  from assms(1) obtain item where
    r: "(if length (labels item) = 0 then
           pushRow a (ExplodedRow (feedback item) [] (yesNo item)) h
         else forEachH (pushLabelRowH a it) (labels item) h) = Some h'"
    by (auto simp: pushExplodedH_def bind_eq_Some_conv)
  show ?thesis
  proof (cases "length (labels item) = 0")
    case True
    with r assms(2,3) show ?thesis by (auto intro: pushRow_keeps)
  next
    case False
    with r have "forEachH (pushLabelRowH a it) (labels item) h = Some h'" by simp
    then show ?thesis
      using assms(2)
      by (rule forEachH_keeps [rotated]) (rule pushLabelRowH_keeps, assumption+, rule assms(3))
  qed
qed

lemma countLabelH_keeps:
  "countLabelH a label h = Some h' \<Longrightarrow> keeps h0 h \<Longrightarrow> length h0 \<le> a \<Longrightarrow> keeps h0 h'"
  by (auto simp: countLabelH_def bind_eq_Some_conv keeps_overwrite)

lemma countItemH_keeps:
  assumes "countItemH a it h = Some h'" "keeps h0 h" "length h0 \<le> a"
  shows "keeps h0 h'"
proof -
  from assms(1) obtain item :: item where "forEachH (countLabelH a) (labels item) h = Some h'"
    by (auto simp: countItemH_def bind_eq_Some_conv)
  then show ?thesis
    using assms(2)
    by (rule forEachH_keeps [rotated]) (rule countLabelH_keeps, assumption+, rule assms(3))
qed

lemma generateAndDownloadExcelH_keeps:
  "generateAndDownloadExcelH a h = Some (d, h') \<Longrightarrow> keeps h h'"
  by (auto simp: generateAndDownloadExcelH_def bind_eq_Some_conv alloc_def
      intro: keeps_snoc keeps_refl)

lemma generateAndDownloadExplodedExcelH_keeps:
  assumes "generateAndDownloadExplodedExcelH a h = Some (d, h')"
  shows "keeps h h'"
proof -
  let ?h1 = "h @ [RowArr []]"
  from assms obtain its h2 rows its3 h5 entries unsorted where
    h2: "forEachH (pushExplodedH (length h)) its ?h1 = Some h2"
    and h5: "forEachH (countItemH (Suc (length h2))) its3 (h2 @ [RowArr rows, MapObj []]) = Some h5"
    and h': "h' = overwrite (Suc (length h5))
               (RowArr (sort_by (\<lambda>a b. int (Count b) - int (Count a)) unsorted))
               (h5 @ [EntryArr entries, RowArr (map (\<lambda>(label, count). CountRow label count) entries)])"
    by (auto simp: generateAndDownloadExplodedExcelH_def bind_eq_Some_conv alloc_def Let_def)
  have k1: "keeps h ?h1" by (intro keeps_snoc keeps_refl)
  have k2: "keeps h h2"
    using h2 k1
    by (rule forEachH_keeps [rotated]) (rule pushExplodedH_keeps, assumption+, simp)
  have l2: "length h \<le> length h2" using k2 by (rule keeps_length)
  have k4: "keeps h (h2 @ [RowArr rows, MapObj []])"
    using keeps_snoc [OF keeps_snoc [OF k2]] by simp
  have k5: "keeps h h5"
    using h5 k4
    by (rule forEachH_keeps [rotated]) (rule countItemH_keeps, assumption+, use l2 in simp)
  have l5: "length h \<le> length h5" using k5 by (rule keeps_length)
  have "keeps h (h5 @ [EntryArr entries, RowArr (map (\<lambda>(label, count). CountRow label count) entries)])"
    using keeps_snoc [OF keeps_snoc [OF k5]] by simp
  then show ?thesis unfolding h' using l5 by (intro keeps_overwrite) simp_all
qed


text \<open>On a store that holds well-formed records the builders return what the functions on
  record lists compute.\<close>

lemma rowArray_overwrite:
  "a < length h \<Longrightarrow> rowArray (overwrite a (RowArr rs) h) a = Some rs"
  by (simp add: rowArray_def lookup_def overwrite_def)

lemma mapEntries_overwrite:
  "a < length h \<Longrightarrow> mapEntries (overwrite a (MapObj m) h) a = Some m"
  by (simp add: mapEntries_def lookup_def overwrite_def)

lemma rowArray_less: "rowArray h a = Some rs \<Longrightarrow> a < length h"
  by (auto simp: rowArray_def split: option.splits obj.splits dest: lookup_Some_less)

lemma mapEntries_less: "mapEntries h a = Some m \<Longrightarrow> a < length h"
  by (auto simp: mapEntries_def split: option.splits obj.splits dest: lookup_Some_less)

lemma forEach_pushLabelRowH:
  assumes "length g \<le> a" "readItem g it = Some item"
  shows "keeps g h \<Longrightarrow> rowArray h a = Some acc \<Longrightarrow>
         \<exists>h'. forEachH (pushLabelRowH a it) ls h = Some h' \<and> keeps g h' \<and>
              rowArray h' a =
                Some (fold (\<lambda>label acc. acc @ [ExplodedRow (feedback item) label (yesNo item)]) ls acc)"
proof (induction ls arbitrary: h acc)
  case Nil
  then show ?case by simp
next
  case (Cons l ls)
  let ?h1 = "overwrite a (RowArr (acc @ [ExplodedRow (feedback item) l (yesNo item)])) h"
  have r: "readItem h it = Some item" using Cons.prems(1) assms(2) by (rule readItem_keeps)
  have step: "pushLabelRowH a it l h = Some ?h1"
    by (simp add: pushLabelRowH_def pushRow_def r Cons.prems(2))
  have k: "keeps g ?h1" using Cons.prems(1) assms(1) by (rule keeps_overwrite)
  have ra: "rowArray ?h1 a = Some (acc @ [ExplodedRow (feedback item) l (yesNo item)])"
    using rowArray_less [OF Cons.prems(2)] by (rule rowArray_overwrite)
  from Cons.IH [OF k ra] show ?case by (simp add: step)
qed

lemma forEach_pushExplodedH:
  assumes "length g \<le> a"
  shows "keeps g h \<Longrightarrow> rowArray h a = Some acc \<Longrightarrow>
         those (map (readItem g) its) = Some items \<Longrightarrow>
         \<exists>h'. forEachH (pushExplodedH a) its h = Some h' \<and> keeps g h' \<and>
              rowArray h' a = Some (fold pushExploded items acc)"
proof (induction its arbitrary: h acc items)
  case Nil
  then show ?case by simp
next
  case (Cons it its)
  from Cons.prems(3) obtain x xs where x: "readItem g it = Some x"
    and xs: "those (map (readItem g) its) = Some xs" and items: "items = x # xs"
    by (auto split: option.splits)
  have r: "readItem h it = Some x" using Cons.prems(1) x by (rule readItem_keeps)
  have "\<exists>h1. pushExplodedH a it h = Some h1 \<and> keeps g h1 \<and>
             rowArray h1 a = Some (pushExploded x acc)"
  proof (cases "length (labels x) = 0")
    case True
    let ?h1 = "overwrite a (RowArr (acc @ [ExplodedRow (feedback x) [] (yesNo x)])) h"
    have "pushExplodedH a it h = Some ?h1"
      using True by (simp add: pushExplodedH_def pushRow_def r Cons.prems(2))
    moreover have "keeps g ?h1" using Cons.prems(1) assms by (rule keeps_overwrite)
    moreover have "rowArray ?h1 a = Some (pushExploded x acc)"
      using rowArray_less [OF Cons.prems(2)] True
      by (simp add: rowArray_overwrite pushExploded_def)
    ultimately show ?thesis by blast
  next
    case False
    from forEach_pushLabelRowH [OF assms x Cons.prems(1) Cons.prems(2), of "labels x"]
    show ?thesis using False by (simp add: pushExplodedH_def r pushExploded_def)
  qed
  then obtain h1 where s: "pushExplodedH a it h = Some h1" and k: "keeps g h1"
    and ra: "rowArray h1 a = Some (pushExploded x acc)" by blast
  from Cons.IH [OF k ra xs] show ?case by (simp add: s items)
qed

lemma forEach_countLabelH:
  assumes "length g \<le> a"
  shows "keeps g h \<Longrightarrow> mapEntries h a = Some m \<Longrightarrow>
         \<exists>h'. forEachH (countLabelH a) ls h = Some h' \<and> keeps g h' \<and>
              mapEntries h' a = Some (fold countLabel ls m)"
proof (induction ls arbitrary: h m)
  case Nil
  then show ?case by simp
next
  case (Cons l ls)
  let ?h1 = "overwrite a (MapObj (countLabel l m)) h"
  have step: "countLabelH a l h = Some ?h1" by (simp add: countLabelH_def Cons.prems(2))
  have k: "keeps g ?h1" using Cons.prems(1) assms by (rule keeps_overwrite)
  have ma: "mapEntries ?h1 a = Some (countLabel l m)"
    using mapEntries_less [OF Cons.prems(2)] by (rule mapEntries_overwrite)
  from Cons.IH [OF k ma] show ?case by (simp add: step)
qed

lemma forEach_countItemH:
  assumes "length g \<le> a"
  shows "keeps g h \<Longrightarrow> mapEntries h a = Some m \<Longrightarrow>
         those (map (readItem g) its) = Some items \<Longrightarrow>
         \<exists>h'. forEachH (countItemH a) its h = Some h' \<and> keeps g h' \<and>
              mapEntries h' a = Some (fold (\<lambda>item. fold countLabel (labels item)) items m)"
proof (induction its arbitrary: h m items)
  case Nil
  then show ?case by simp
next
  case (Cons it its)
  from Cons.prems(3) obtain x xs where x: "readItem g it = Some x"
    and xs: "those (map (readItem g) its) = Some xs" and items: "items = x # xs"
    by (auto split: option.splits)
  have r: "readItem h it = Some x" using Cons.prems(1) x by (rule readItem_keeps)
  from forEach_countLabelH [OF assms Cons.prems(1) Cons.prems(2), of "labels x"]
  obtain h1 where s: "countItemH a it h = Some h1" and k: "keeps g h1"
    and ma: "mapEntries h1 a = Some (fold countLabel (labels x) m)"
    by (auto simp: countItemH_def r)
  from Cons.IH [OF k ma xs] show ?case by (simp add: s items)
qed

lemma those_compiledRowH:
  "those (map (readItem h) its) = Some items \<Longrightarrow>
   those (map (compiledRowH h) its) = Some (compiledData items)"
proof (induction its arbitrary: items)
  case Nil
  then show ?case by (simp add: compiledData_def)
next
  case (Cons it its)
  from Cons.prems obtain x xs where x: "readItem h it = Some x"
    and xs: "those (map (readItem h) its) = Some xs" and items: "items = x # xs"
    by (auto split: option.splits)
  from Cons.IH [OF xs] show ?case
    by (simp add: compiledRowH_def x items compiledData_def)
qed

lemma rowArray_snoc: "rowArray (h @ [RowArr rs]) (length h) = Some rs"
  by (simp add: rowArray_def lookup_def)

lemma generateAndDownloadExcelH_run:
  assumes "readItems h a = Some records"
  shows "generateAndDownloadExcelH a h =
           Some (generateAndDownloadExcel records, h @ [RowArr (compiledData records)])"
proof -
  from assms obtain its where a: "itemArray h a = Some its"
    and t: "those (map (readItem h) its) = Some records"
    by (auto simp: readItems_def bind_eq_Some_conv)
  show ?thesis
    by (simp add: generateAndDownloadExcelH_def a those_compiledRowH [OF t] alloc_def
        rowArray_snoc generateAndDownloadExcel_def)
qed

lemma generateAndDownloadExplodedExcelH_run:
  assumes "readItems h a = Some records"
  shows "\<exists>h'. generateAndDownloadExplodedExcelH a h =
                Some (generateAndDownloadExplodedExcel records, h')"
proof -
  from assms obtain its where a: "itemArray h a = Some its"
    and t: "those (map (readItem h) its) = Some records"
    by (auto simp: readItems_def bind_eq_Some_conv)
  let ?h1 = "h @ [RowArr []]"
  have k1: "keeps h ?h1" by (intro keeps_snoc keeps_refl)
  have a1: "itemArray ?h1 a = Some its" using k1 a by (rule itemArray_keeps)
  from forEach_pushExplodedH [where g = h and a = "length h" and h = ?h1 and acc = "[]",
      OF _ k1 rowArray_snoc t]
  obtain h2 where h2: "forEachH (pushExplodedH (length h)) its ?h1 = Some h2"
    and k2: "keeps h h2" and r2: "rowArray h2 (length h) = Some (explodedData records)"
    by (auto simp: explodedData_def)
  have a2: "itemArray h2 a = Some its" using k2 a by (rule itemArray_keeps)
  have t2: "those (map (readItem h2) its) = Some records"
    using k2 t by (rule those_readItem_keeps)
  let ?h3 = "h2 @ [RowArr (compiledData records)]"
  let ?h4 = "?h3 @ [MapObj []]"
  have k4: "keeps h ?h4" by (intro keeps_snoc k2)
  have a4: "itemArray ?h4 a = Some its" using k4 a by (rule itemArray_keeps)
  have m4: "mapEntries ?h4 (length ?h3) = Some []"
    by (simp add: mapEntries_def lookup_def nth_append)
  have le4: "length h \<le> length ?h3" using keeps_length [OF k2] by simp
  from forEach_countItemH [where g = h and a = "length ?h3" and h = ?h4 and m = "[]",
      OF le4 k4 m4 t]
  obtain h5 where h5: "forEachH (countItemH (length ?h3)) its ?h4 = Some h5"
    and k5: "keeps h h5" and m5: "mapEntries h5 (length ?h3) = Some (labelCountsOf records)"
    by (auto simp: labelCountsOf_def)
  let ?rows = "map (\<lambda>(label, count). CountRow label count) (labelCountsOf records)"
  let ?h7 = "h5 @ [EntryArr (labelCountsOf records)] @ [RowArr ?rows]"
  have r7: "rowArray ?h7 (Suc (length h5)) = Some ?rows"
    by (simp add: rowArray_def lookup_def nth_append)
  have r8: "rowArray (overwrite (Suc (length h5)) (RowArr (countsData records)) ?h7) (Suc (length h5)) =
              Some (countsData records)"
    by (rule rowArray_overwrite) simp
  show ?thesis
    using h2 r2 a1 a2 a4 h5 m5 r7 r8
    by (simp add: generateAndDownloadExplodedExcelH_def alloc_def those_compiledRowH [OF t2]
        rowArray_snoc generateAndDownloadExplodedExcel_def countsData_def)
qed


lemma example_records: "readItems exampleHeap 8 = Some exampleRecords"
  by code_simp


section \<open>Properties\<close>

subsection \<open>C1: a failing batch\<close>

text \<open>
  C1 says that after a failed call the records of the batches that succeeded before it are
  not in the session state. They are: the \<^verbatim>\<open>catch\<close> block does not clear
  \<^verbatim>\<open>analysisResults\<close>. With 251 lines and a service whose second call fails, the
  handler ends in the error state and \<^verbatim>\<open>analysisResults\<close> holds the record of the first
  batch.
\<close>

theorem partial_results_kept:
  "statusError (analyzeButtonClick failsSecond exampleSession) \<and>
   statusMessage (analyzeButtonClick failsSecond exampleSession) = ErrorOccurred \<and>
   analysisResults (analyzeButtonClick failsSecond exampleSession) =
     [\<lparr>feedback = ''a'', labels = [''Positive''], isIncorrect = Some False\<rparr>]"
proof -
  have k: "Suc 0 < ceilDiv (length exampleLines) BATCH_SIZE" by (simp add: example_total)
  have f: "failsSecond (Suc 0) (batchPrompt exampleLines (Suc 0)) = Fails"
    by (simp add: failsSecond_def)
  have b: "\<forall>j. 0 \<le> j \<and> j < Suc 0 \<longrightarrow> failsSecond j (batchPrompt exampleLines j) \<noteq> Fails"
    by (simp add: failsSecond_def)
  note r = analyzeButtonClick_Thrown [where s = exampleSession and ls = exampleLines and k = "Suc 0"
      and svc = failsSecond, OF example_trim example_lines [symmetric] k f b]
  show ?thesis
    by (simp add: r failsSecond_def pushed_def tagItem_def exampleItem_def)
qed

text \<open>
  C1, amended: if the call of batch \<open>k\<close> is the first that fails, the handler ends in the
  error outcome (error status with the error class, the error paragraph in place of the
  table, results header and label summary hidden, both export buttons disabled, no file
  written), batches \<open>0..k\<close> are the only ones sent, each once, and \<^verbatim>\<open>analysisResults\<close>
  holds exactly the tagged records of the batches before \<open>k\<close>.
\<close>

theorem failed_batch_outcome:
  assumes "trim (feedbackInput s) \<noteq> []"
    and "ls = feedbackLinesOf (feedbackInput s)"
    and "k < ceilDiv (length ls) BATCH_SIZE"
    and "svc k (batchPrompt ls k) = Fails"
    and "\<forall>j. j < k \<longrightarrow> svc j (batchPrompt ls j) \<noteq> Fails"
  shows "statusMessage (analyzeButtonClick svc s) = ErrorOccurred \<and>
         statusError (analyzeButtonClick svc s) \<and>
         resultsTableContainer (analyzeButtonClick svc s) = ErrorParagraph \<and>
         resultsHeaderHidden (analyzeButtonClick svc s) \<and>
         exportButtonDisabled (analyzeButtonClick svc s) \<and>
         exportExplodedButtonDisabled (analyzeButtonClick svc s) \<and>
         labelCountsSummaryHidden (analyzeButtonClick svc s) \<and>
         downloads (analyzeButtonClick svc s) = downloads s \<and>
         calls (analyzeButtonClick svc s) = calls s @ map (batchPrompt ls) [0..<Suc k] \<and>
         analysisResults (analyzeButtonClick svc s) =
           concat (map (\<lambda>j. pushed (svc j (batchPrompt ls j))) [0..<k])"
proof -
  from assms(5) have b: "\<forall>j. 0 \<le> j \<and> j < k \<longrightarrow> svc j (batchPrompt ls j) \<noteq> Fails" by simp
  note r = analyzeButtonClick_Thrown [where s = s and ls = ls and k = k and svc = svc,
      OF assms(1) assms(2) assms(3) assms(4) b]
  show ?thesis by (simp add: r)
qed

text \<open>The amended C1 at the example: the second of two batches fails.\<close>

theorem failed_batch_outcome_witness:
  "trim (feedbackInput exampleSession) \<noteq> [] \<and>
   exampleLines = feedbackLinesOf (feedbackInput exampleSession) \<and>
   Suc 0 < ceilDiv (length exampleLines) BATCH_SIZE \<and>
   failsSecond (Suc 0) (batchPrompt exampleLines (Suc 0)) = Fails \<and>
   failsSecond 0 (batchPrompt exampleLines 0) \<noteq> Fails \<and>
   statusMessage (analyzeButtonClick failsSecond exampleSession) = ErrorOccurred \<and>
   exportButtonDisabled (analyzeButtonClick failsSecond exampleSession) \<and>
   calls (analyzeButtonClick failsSecond exampleSession) =
     [batchPrompt exampleLines 0, batchPrompt exampleLines (Suc 0)] \<and>
   analysisResults (analyzeButtonClick failsSecond exampleSession) =
     pushed (Items [exampleItem])"
proof -
  have k: "Suc 0 < ceilDiv (length exampleLines) BATCH_SIZE" by (simp add: example_total)
  have f: "failsSecond (Suc 0) (batchPrompt exampleLines (Suc 0)) = Fails"
    by (simp add: failsSecond_def)
  have b: "\<forall>j. j < Suc 0 \<longrightarrow> failsSecond j (batchPrompt exampleLines j) \<noteq> Fails"
    by (simp add: failsSecond_def)
  have c: "calls exampleSession = []" by (simp add: exampleSession_def examplePage_def)
  have u: "[0..<Suc (Suc 0)] = [0, Suc 0]" by (simp add: upt_rec)
  note r = failed_batch_outcome [where s = exampleSession and ls = exampleLines and k = "Suc 0"
      and svc = failsSecond, OF example_trim example_lines [symmetric] k f b]
  have "statusMessage (analyzeButtonClick failsSecond exampleSession) = ErrorOccurred \<and>
   exportButtonDisabled (analyzeButtonClick failsSecond exampleSession) \<and>
   calls (analyzeButtonClick failsSecond exampleSession) =
     [batchPrompt exampleLines 0, batchPrompt exampleLines (Suc 0)] \<and>
   analysisResults (analyzeButtonClick failsSecond exampleSession) =
     pushed (Items [exampleItem])"
    using r by (simp add: c u failsSecond_def)
  moreover have "failsSecond 0 (batchPrompt exampleLines 0) \<noteq> Fails"
    by (simp add: failsSecond_def)
  ultimately show ?thesis
    using example_trim example_lines [symmetric] k f by (intro conjI) simp_all
qed

subsection \<open>C2: chunks and calls\<close>



subsection \<open>C3: normalisation applied twice\<close>




subsection \<open>C4: the exploded sheet\<close>

text \<open>
  C4: the exploded sheet has one row per record and label, in order, and one row with an
  empty \<^verbatim>\<open>Single Label\<close> for a record without labels; its length is the sum over the
  records of the maximum of 1 and the number of labels.
\<close>

theorem exploded_row_count:
  "explodedData records = concat (map explodedRowsOf records) \<and>
   length (explodedData records) = (\<Sum>r\<leftarrow>records. max 1 (length (labels r))) \<and>
   explodedData (before @ [r\<lparr>labels := []\<rparr>] @ after) =
     explodedData before @ [ExplodedRow (feedback r) [] (yesNo r)] @ explodedData after"
proof -
  have "length (explodedData records) = (\<Sum>r\<leftarrow>records. max 1 (length (labels r)))"
    by (simp add: explodedData_concat length_concat comp_def length_explodedRowsOf)
  moreover have "explodedData (before @ [r\<lparr>labels := []\<rparr>] @ after) =
     explodedData before @ [ExplodedRow (feedback r) [] (yesNo r)] @ explodedData after"
    by (simp add: explodedData_concat explodedRowsOf_def yesNo_def)
  ultimately show ?thesis by (simp add: explodedData_concat)
qed

text \<open>C4 at four example records, one of them without labels.\<close>

theorem exploded_row_count_witness:
  "explodedData exampleRecords =
     [ExplodedRow ''a'' ''Bug'' ''No'', ExplodedRow ''a'' ''#Bug'' ''No'',
      ExplodedRow ''a'' ''UI'' ''No'', ExplodedRow ''b'' [] ''Yes'',
      ExplodedRow ''c'' ''Slow'' ''No'', ExplodedRow ''c'' '' ui '' ''No'',
      ExplodedRow ''d'' ''Crash'' ''No'', ExplodedRow ''d'' ''slow'' ''No'',
      ExplodedRow ''d'' ''Idea'' ''No''] \<and>
   length (explodedData exampleRecords) = 9"
proof -
  have rows: "concat (map explodedRowsOf exampleRecords) =
     [ExplodedRow ''a'' ''Bug'' ''No'', ExplodedRow ''a'' ''#Bug'' ''No'',
      ExplodedRow ''a'' ''UI'' ''No'', ExplodedRow ''b'' [] ''Yes'',
      ExplodedRow ''c'' ''Slow'' ''No'', ExplodedRow ''c'' '' ui '' ''No'',
      ExplodedRow ''d'' ''Crash'' ''No'', ExplodedRow ''d'' ''slow'' ''No'',
      ExplodedRow ''d'' ''Idea'' ''No'']"
    by (simp add: exampleRecords_def explodedRowsOf_def yesNo_def)
  have n: "(\<Sum>r\<leftarrow>exampleRecords. max 1 (length (labels r))) = 9"
    by (simp add: exampleRecords_def)
  from exploded_row_count [of exampleRecords] rows n show ?thesis by simp
qed

subsection \<open>C5: the sum of the counts\<close>

text \<open>
  C5: the counts add up to the number of labels whose normalised form is not empty, in the
  summary and in the counts sheet; so they add up to at most the number of labels, and to
  exactly that number when no label normalises to the empty string.
\<close>

theorem counts_sum:
  "sum_list (map snd (sortedLabels records)) =
     length (filter (\<lambda>l. normalizeLabel l \<noteq> []) (allLabels records)) \<and>
   sum_list (map Count (countsData records)) =
     length (filter (\<lambda>l. normalizeLabel l \<noteq> []) (allLabels records)) \<and>
   sum_list (map snd (sortedLabels records)) \<le> length (allLabels records) \<and>
   ((\<forall>l \<in> set (allLabels records). normalizeLabel l \<noteq> []) \<longrightarrow>
      sum_list (map snd (sortedLabels records)) = length (allLabels records))"
proof -
  have s: "sum_list (map snd (sortedLabels records)) =
     length (filter (\<lambda>l. normalizeLabel l \<noteq> []) (allLabels records))"
    by (simp only: sum_sortedLabels sum_labelCountsOf)
  have "(\<forall>l \<in> set (allLabels records). normalizeLabel l \<noteq> []) \<longrightarrow>
      filter (\<lambda>l. normalizeLabel l \<noteq> []) (allLabels records) = allLabels records"
    by simp
  with s show ?thesis by (auto simp: Count_countsData)
qed

text \<open>C5 at the record with labels \<^verbatim>\<open>Bug\<close> and \<^verbatim>\<open>#Bug\<close>.\<close>

theorem counts_sum_witness:
  "allLabels [\<lparr>feedback = ''a'', labels = [''Bug'', ''#Bug''], isIncorrect = Some False\<rparr>] =
     [''Bug'', ''#Bug''] \<and>
   normalizeLabel ''Bug'' = ''bug'' \<and> normalizeLabel ''#Bug'' = ''bug'' \<and>
   sortedLabels [\<lparr>feedback = ''a'', labels = [''Bug'', ''#Bug''], isIncorrect = Some False\<rparr>] =
     [(''bug'', 2)] \<and>
   sum_list (map snd
     (sortedLabels [\<lparr>feedback = ''a'', labels = [''Bug'', ''#Bug''], isIncorrect = Some False\<rparr>])) =
     length (allLabels [\<lparr>feedback = ''a'', labels = [''Bug'', ''#Bug''], isIncorrect = Some False\<rparr>])"
proof -
  let ?rs = "[\<lparr>feedback = ''a'', labels = [''Bug'', ''#Bug''], isIncorrect = Some False\<rparr>]"
  have a: "normalizeLabel ''Bug'' = ''bug''" by code_simp
  have b: "normalizeLabel ''#Bug'' = ''bug''" by code_simp
  have h: "\<forall>l \<in> set (allLabels ?rs). normalizeLabel l \<noteq> []"
    by (simp add: allLabels_def a b)
  have v: "sortedLabels ?rs = [(''bug'', 2)]" by code_simp
  from counts_sum [of ?rs] h
  have "sum_list (map snd (sortedLabels ?rs)) = length (allLabels ?rs)" by blast
  moreover have "allLabels ?rs = [''Bug'', ''#Bug'']" by (simp add: allLabels_def)
  ultimately show ?thesis using a b v by (intro conjI)
qed

subsection \<open>C6: the order of the counts\<close>

text \<open>
  C6: the label counts, in the summary and in the counts sheet, are in non-increasing order
  of count.
\<close>

theorem counts_sorted_desc:
  "sorted_wrt (\<lambda>a b. snd a \<ge> snd b) (sortedLabels records) \<and>
   sorted_wrt (\<lambda>a b. Count a \<ge> Count b) (countsData records)"
proof -
  have 1: "sorted_wrt (\<lambda>a b. snd a \<ge> snd b) (sortedLabels records)"
    by (rule sorted_sortedLabels)
  then have "sorted_wrt (\<lambda>a b. a \<ge> b) (map snd (sortedLabels records))"
    by (simp add: sorted_wrt_map)
  then have "sorted_wrt (\<lambda>a b. a \<ge> b) (map Count (countsData records))"
    by (simp only: Count_countsData)
  then have "sorted_wrt (\<lambda>a b. Count a \<ge> Count b) (countsData records)"
    by (simp add: sorted_wrt_map)
  with 1 show ?thesis by simp
qed

text \<open>C6 at the example records.\<close>

theorem counts_sorted_desc_witness:
  "sortedLabels exampleRecords =
     [(''bug'', 2), (''ui'', 2), (''slow'', 2), (''crash'', 1), (''idea'', 1)] \<and>
   sorted_wrt (\<lambda>a b. snd a \<ge> snd b)
     [(''bug'', 2 :: nat), (''ui'', 2), (''slow'', 2), (''crash'', 1), (''idea'', 1)]"
proof -
  have v: "sortedLabels exampleRecords =
     [(''bug'', 2), (''ui'', 2), (''slow'', 2), (''crash'', 1), (''idea'', 1)]"
    by code_simp
  from counts_sorted_desc [of exampleRecords] v show ?thesis by simp
qed

subsection \<open>C7: what a response adds\<close>

text \<open>
  C7: an iteration whose call returns an array continues with that array appended to
  \<^verbatim>\<open>analysisResults\<close>, every entry with its text and labels as returned and with
  \<^verbatim>\<open>isIncorrect\<close> set to false, whatever the number of entries; when no call fails the
  loop ends normally with the concatenation of all returned arrays appended.
\<close>

theorem results_appended_as_returned:
  "(i < tot \<and> svc i (batchPrompt ls i) = Items returned \<longrightarrow>
      batchLoop svc ls tot i s =
        batchLoop svc ls tot (Suc i)
          (s\<lparr>statusMessage := Processing (Suc i) tot,
             calls := calls s @ [batchPrompt ls i],
             analysisResults := analysisResults s @ map tagItem returned\<rparr>)) \<and>
   ((\<forall>j. j < tot \<longrightarrow> svc j (batchPrompt ls j) \<noteq> Fails) \<longrightarrow>
      (\<exists>s'. batchLoop svc ls tot 0 s = Normal s' \<and>
            analysisResults s' =
              analysisResults s @ concat (map (\<lambda>j. pushed (svc j (batchPrompt ls j))) [0..<tot]))) \<and>
   pushed (Items returned) = map tagItem returned \<and>
   map feedback (map tagItem returned) = map feedback returned \<and>
   map labels (map tagItem returned) = map labels returned \<and>
   (\<forall>r \<in> set (map tagItem returned). isIncorrect r = Some False)"
proof -
  have step: "i < tot \<and> svc i (batchPrompt ls i) = Items returned \<longrightarrow>
      batchLoop svc ls tot i s =
        batchLoop svc ls tot (Suc i)
          (s\<lparr>statusMessage := Processing (Suc i) tot,
             calls := calls s @ [batchPrompt ls i],
             analysisResults := analysisResults s @ map tagItem returned\<rparr>)"
    by (simp add: batchLoop_step pushed_def)
  have whole: "(\<forall>j. j < tot \<longrightarrow> svc j (batchPrompt ls j) \<noteq> Fails) \<longrightarrow>
      (\<exists>s'. batchLoop svc ls tot 0 s = Normal s' \<and>
            analysisResults s' =
              analysisResults s @ concat (map (\<lambda>j. pushed (svc j (batchPrompt ls j))) [0..<tot]))"
  proof
    assume "\<forall>j. j < tot \<longrightarrow> svc j (batchPrompt ls j) \<noteq> Fails"
    then have "\<forall>j. 0 \<le> j \<and> j < tot \<longrightarrow> svc j (batchPrompt ls j) \<noteq> Fails" by simp
    from batchLoop_Normal [where i = 0 and s = s and tot = tot and svc = svc and ls = ls, OF this]
    show "\<exists>s'. batchLoop svc ls tot 0 s = Normal s' \<and>
            analysisResults s' =
              analysisResults s @ concat (map (\<lambda>j. pushed (svc j (batchPrompt ls j))) [0..<tot])"
      by simp
  qed
  have p: "pushed (Items returned) = map tagItem returned" by (simp add: pushed_def)
  have f: "map feedback (map tagItem returned) = map feedback returned"
    by (simp add: tagItem_def comp_def)
  have l: "map labels (map tagItem returned) = map labels returned"
    by (simp add: tagItem_def comp_def)
  have t: "\<forall>r \<in> set (map tagItem returned). isIncorrect r = Some False"
    by (simp add: tagItem_def)
  show ?thesis
    by (intro conjI) (rule step whole p f l t)+
qed

text \<open>C7 at the example: a batch of 250 lines answered with a single record.\<close>

theorem results_appended_as_returned_witness:
  "returnsOne (Suc 0) (batchPrompt exampleLines (Suc 0)) \<noteq> Fails \<and>
   length (batchLinesAt exampleLines 0) = 250 \<and>
   returnsOne 0 (batchPrompt exampleLines 0) = Items [exampleItem] \<and>
   (\<exists>s'. batchLoop returnsOne exampleLines 2 0 examplePage = Normal s' \<and>
         analysisResults s' =
           [\<lparr>feedback = ''a'', labels = [''Positive''], isIncorrect = Some False\<rparr>,
            \<lparr>feedback = ''a'', labels = [''Positive''], isIncorrect = Some False\<rparr>])"
proof -
  have h: "\<forall>j. j < 2 \<longrightarrow> returnsOne j (batchPrompt exampleLines j) \<noteq> Fails"
    by (simp add: returnsOne_def)
  have n: "length (batchLinesAt exampleLines 0) = 250"
    by (simp add: length_batchLinesAt exampleLines_def BATCH_SIZE_def)
  have r: "returnsOne 0 (batchPrompt exampleLines 0) = Items [exampleItem]"
    by (simp add: returnsOne_def)
  have u: "[0..<2] = [0, Suc 0]" by (simp add: upt_rec)
  have a: "analysisResults examplePage = []" by (simp add: examplePage_def)
  from results_appended_as_returned [of 0 2 returnsOne exampleLines "[exampleItem]" examplePage] h
  have "\<exists>s'. batchLoop returnsOne exampleLines 2 0 examplePage = Normal s' \<and>
            analysisResults s' =
              analysisResults examplePage @
              concat (map (\<lambda>j. pushed (returnsOne j (batchPrompt exampleLines j))) [0..<2])"
    by blast
  then have "\<exists>s'. batchLoop returnsOne exampleLines 2 0 examplePage = Normal s' \<and>
         analysisResults s' =
           [\<lparr>feedback = ''a'', labels = [''Positive''], isIncorrect = Some False\<rparr>,
            \<lparr>feedback = ''a'', labels = [''Positive''], isIncorrect = Some False\<rparr>]"
    by (simp add: u a returnsOne_def pushed_def tagItem_def exampleItem_def)
  moreover have "returnsOne (Suc 0) (batchPrompt exampleLines (Suc 0)) \<noteq> Fails"
    by (simp add: returnsOne_def)
  ultimately show ?thesis using n r by (intro conjI)
qed

subsection \<open>C8: no results\<close>

text \<open>
  C8: when there is input, no call fails and nothing is returned, the handler ends with the
  "no feedback could be analyzed" status without the error class, an empty container and
  no records; a run on the same input in which a call fails ends with the error status and
  the error class instead.
\<close>

theorem no_results_outcome:
  assumes "trim (feedbackInput s) \<noteq> []"
    and "ls = feedbackLinesOf (feedbackInput s)"
    and "\<forall>j. j < ceilDiv (length ls) BATCH_SIZE \<longrightarrow> svc j (batchPrompt ls j) \<noteq> Fails"
    and "\<forall>j. j < ceilDiv (length ls) BATCH_SIZE \<longrightarrow> pushed (svc j (batchPrompt ls j)) = []"
  shows "statusMessage (analyzeButtonClick svc s) = NoFeedback \<and>
         \<not> statusError (analyzeButtonClick svc s) \<and>
         resultsTableContainer (analyzeButtonClick svc s) = EmptyContainer \<and>
         analysisResults (analyzeButtonClick svc s) = [] \<and>
         (\<forall>svc' k. k < ceilDiv (length ls) BATCH_SIZE \<and> svc' k (batchPrompt ls k) = Fails \<and>
                   (\<forall>j. j < k \<longrightarrow> svc' j (batchPrompt ls j) \<noteq> Fails) \<longrightarrow>
            statusMessage (analyzeButtonClick svc' s) = ErrorOccurred \<and>
            statusError (analyzeButtonClick svc' s))"
proof -
  let ?tot = "ceilDiv (length ls) BATCH_SIZE"
  from assms(3) have ok: "\<forall>j. 0 \<le> j \<and> j < ?tot \<longrightarrow> svc j (batchPrompt ls j) \<noteq> Fails" by simp
  from assms(4) have rs: "[] = concat (map (\<lambda>j. pushed (svc j (batchPrompt ls j))) [0..<?tot])"
    by simp
  note r = analyzeButtonClick_Normal [where s = s and ls = ls and svc = svc and rs = "[]",
      OF assms(1) assms(2) ok rs]
  have fail: "statusMessage (analyzeButtonClick svc' s) = ErrorOccurred \<and>
              statusError (analyzeButtonClick svc' s)"
    if "k < ?tot" "svc' k (batchPrompt ls k) = Fails"
      "\<forall>j. j < k \<longrightarrow> svc' j (batchPrompt ls j) \<noteq> Fails" for svc' k
  proof -
    from that(3) have b: "\<forall>j. 0 \<le> j \<and> j < k \<longrightarrow> svc' j (batchPrompt ls j) \<noteq> Fails" by simp
    note t = analyzeButtonClick_Thrown [where s = s and ls = ls and k = k and svc = svc',
        OF assms(1) assms(2) that(1) that(2) b]
    show ?thesis by (simp add: t)
  qed
  have 1: "statusMessage (analyzeButtonClick svc s) = NoFeedback" by (simp add: r)
  have 2: "\<not> statusError (analyzeButtonClick svc s)" by (simp add: r)
  have 3: "resultsTableContainer (analyzeButtonClick svc s) = EmptyContainer" by (simp add: r)
  have 4: "analysisResults (analyzeButtonClick svc s) = []" by (simp add: r)
  from 1 2 3 4 fail show ?thesis by blast
qed

text \<open>C8 at the example: a service that returns empty arrays, and one that fails.\<close>

theorem no_results_outcome_witness:
  "trim (feedbackInput exampleSession) \<noteq> [] \<and>
   ceilDiv (length exampleLines) BATCH_SIZE = 2 \<and>
   returnsNothing 0 (batchPrompt exampleLines 0) = Items [] \<and>
   returnsNothing (Suc 0) (batchPrompt exampleLines (Suc 0)) = Items [] \<and>
   statusMessage (analyzeButtonClick returnsNothing exampleSession) = NoFeedback \<and>
   \<not> statusError (analyzeButtonClick returnsNothing exampleSession) \<and>
   statusMessage (analyzeButtonClick failsSecond exampleSession) = ErrorOccurred \<and>
   statusError (analyzeButtonClick failsSecond exampleSession)"
proof -
  have h1: "\<forall>j. j < ceilDiv (length exampleLines) BATCH_SIZE \<longrightarrow>
        returnsNothing j (batchPrompt exampleLines j) \<noteq> Fails"
    by (simp add: returnsNothing_def)
  have h2: "\<forall>j. j < ceilDiv (length exampleLines) BATCH_SIZE \<longrightarrow>
        pushed (returnsNothing j (batchPrompt exampleLines j)) = []"
    by (simp add: returnsNothing_def pushed_def)
  have k: "Suc 0 < ceilDiv (length exampleLines) BATCH_SIZE" by (simp add: example_total)
  have f: "failsSecond (Suc 0) (batchPrompt exampleLines (Suc 0)) = Fails"
    by (simp add: failsSecond_def)
  have b: "\<forall>j. j < Suc 0 \<longrightarrow> failsSecond j (batchPrompt exampleLines j) \<noteq> Fails"
    by (simp add: failsSecond_def)
  note r = no_results_outcome [where s = exampleSession and ls = exampleLines
      and svc = returnsNothing, OF example_trim example_lines [symmetric] h1 h2]
  from r k f b
  have "statusMessage (analyzeButtonClick failsSecond exampleSession) = ErrorOccurred \<and>
        statusError (analyzeButtonClick failsSecond exampleSession)"
    by blast
  moreover have "returnsNothing 0 (batchPrompt exampleLines 0) = Items []"
    and "returnsNothing (Suc 0) (batchPrompt exampleLines (Suc 0)) = Items []"
    by (simp_all add: returnsNothing_def)
  ultimately show ?thesis using r example_trim example_total by (intro conjI) simp_all
qed

subsection \<open>C9: the exports leave the records alone\<close>

text \<open>
  C9: run on a store, neither builder writes to an object that was there before the call:
  the store after the call begins with the store before it, so the array of records, every
  record and every array of labels are as they were. On a store that holds well-formed
  records both builders return, the file is the one computed from the records, and the
  records read from the store afterwards are the same. The basic export has the one sheet,
  the detailed export the three sheets in the order exploded, compiled, counts.
\<close>

theorem exports_leave_records:
  "(generateAndDownloadExcelH labeledFeedback h = Some (d, h') \<longrightarrow> take (length h) h' = h) \<and>
   (generateAndDownloadExplodedExcelH labeledFeedback h = Some (d, h') \<longrightarrow>
      take (length h) h' = h) \<and>
   (readItems h labeledFeedback = Some records \<longrightarrow>
      (\<exists>h1. generateAndDownloadExcelH labeledFeedback h =
               Some (generateAndDownloadExcel records, h1) \<and>
            take (length h) h1 = h \<and> readItems h1 labeledFeedback = Some records) \<and>
      (\<exists>h1. generateAndDownloadExplodedExcelH labeledFeedback h =
               Some (generateAndDownloadExplodedExcel records, h1) \<and>
            take (length h) h1 = h \<and> readItems h1 labeledFeedback = Some records)) \<and>
   map fst (sheets (generateAndDownloadExcel records)) = [''Feedback Analysis''] \<and>
   map fst (sheets (generateAndDownloadExplodedExcel records)) =
     [''Exploded by Label'', ''Compiled View'', ''Label Counts'']"
proof -
  have f1: "generateAndDownloadExcelH labeledFeedback h = Some (d, h') \<longrightarrow>
              take (length h) h' = h"
    using generateAndDownloadExcelH_keeps [of labeledFeedback h d h'] by (simp add: keeps_def)
  have f2: "generateAndDownloadExplodedExcelH labeledFeedback h = Some (d, h') \<longrightarrow>
              take (length h) h' = h"
    using generateAndDownloadExplodedExcelH_keeps [of labeledFeedback h d h']
    by (simp add: keeps_def)
  have r: "(\<exists>h1. generateAndDownloadExcelH labeledFeedback h =
               Some (generateAndDownloadExcel records, h1) \<and>
            take (length h) h1 = h \<and> readItems h1 labeledFeedback = Some records) \<and>
      (\<exists>h1. generateAndDownloadExplodedExcelH labeledFeedback h =
               Some (generateAndDownloadExplodedExcel records, h1) \<and>
            take (length h) h1 = h \<and> readItems h1 labeledFeedback = Some records)"
    if rs: "readItems h labeledFeedback = Some records"
  proof
    let ?h1 = "h @ [RowArr (compiledData records)]"
    have run: "generateAndDownloadExcelH labeledFeedback h =
                 Some (generateAndDownloadExcel records, ?h1)"
      using rs by (rule generateAndDownloadExcelH_run)
    have k: "keeps h ?h1" using run by (rule generateAndDownloadExcelH_keeps)
    have "readItems ?h1 labeledFeedback = Some records" using k rs by (rule readItems_keeps)
    with run k show "\<exists>h1. generateAndDownloadExcelH labeledFeedback h =
               Some (generateAndDownloadExcel records, h1) \<and>
            take (length h) h1 = h \<and> readItems h1 labeledFeedback = Some records"
      unfolding keeps_def by blast
  next
    from generateAndDownloadExplodedExcelH_run [OF rs] obtain h1 where
      run: "generateAndDownloadExplodedExcelH labeledFeedback h =
              Some (generateAndDownloadExplodedExcel records, h1)" by blast
    have k: "keeps h h1" using run by (rule generateAndDownloadExplodedExcelH_keeps)
    have "readItems h1 labeledFeedback = Some records" using k rs by (rule readItems_keeps)
    with run k show "\<exists>h1. generateAndDownloadExplodedExcelH labeledFeedback h =
               Some (generateAndDownloadExplodedExcel records, h1) \<and>
            take (length h) h1 = h \<and> readItems h1 labeledFeedback = Some records"
      unfolding keeps_def by blast
  qed
  have n1: "map fst (sheets (generateAndDownloadExcel records)) = [''Feedback Analysis'']"
    by (simp add: generateAndDownloadExcel_def)
  have n2: "map fst (sheets (generateAndDownloadExplodedExcel records)) =
     [''Exploded by Label'', ''Compiled View'', ''Label Counts'']"
    by (simp add: generateAndDownloadExplodedExcel_def)
  from f1 f2 r n1 n2 show ?thesis by blast
qed

text \<open>
  C9 at a store that holds the example records: both exports return and the records are
  read back unchanged; a write to the labels of the first record would not pass.
\<close>

theorem exports_leave_records_witness:
  "readItems exampleHeap 8 = Some exampleRecords \<and>
   (\<exists>h1. generateAndDownloadExcelH 8 exampleHeap =
            Some (generateAndDownloadExcel exampleRecords, h1) \<and>
         take (length exampleHeap) h1 = exampleHeap \<and>
         readItems h1 8 = Some exampleRecords) \<and>
   (\<exists>h1. generateAndDownloadExplodedExcelH 8 exampleHeap =
            Some (generateAndDownloadExplodedExcel exampleRecords, h1) \<and>
         take (length exampleHeap) h1 = exampleHeap \<and>
         readItems h1 8 = Some exampleRecords) \<and>
   sheets (generateAndDownloadExcel exampleRecords) =
     [(''Feedback Analysis'',
       [CompiledRow ''a'' ''Bug, #Bug, UI'' ''No'',
        CompiledRow ''b'' [] ''Yes'',
        CompiledRow ''c'' ''Slow,  ui '' ''No'',
        CompiledRow ''d'' ''Crash, slow, Idea'' ''No''])] \<and>
   take (length exampleHeap) (overwrite 0 (StrArr []) exampleHeap) \<noteq> exampleHeap"
proof -
  have d: "sheets (generateAndDownloadExcel exampleRecords) =
     [(''Feedback Analysis'',
       [CompiledRow ''a'' ''Bug, #Bug, UI'' ''No'',
        CompiledRow ''b'' [] ''Yes'',
        CompiledRow ''c'' ''Slow,  ui '' ''No'',
        CompiledRow ''d'' ''Crash, slow, Idea'' ''No''])]"
    by (simp add: exampleRecords_def generateAndDownloadExcel_def compiledData_def yesNo_def)
  have w: "take (length exampleHeap) (overwrite 0 (StrArr []) exampleHeap) \<noteq> exampleHeap"
    by (simp add: exampleHeap_def overwrite_def)
  from exports_leave_records [where h = exampleHeap and labeledFeedback = 8
      and records = exampleRecords] example_records
  have "(\<exists>h1. generateAndDownloadExcelH 8 exampleHeap =
            Some (generateAndDownloadExcel exampleRecords, h1) \<and>
         take (length exampleHeap) h1 = exampleHeap \<and>
         readItems h1 8 = Some exampleRecords) \<and>
   (\<exists>h1. generateAndDownloadExplodedExcelH 8 exampleHeap =
            Some (generateAndDownloadExplodedExcel exampleRecords, h1) \<and>
         take (length exampleHeap) h1 = exampleHeap \<and>
         readItems h1 8 = Some exampleRecords)"
    by blast
  with example_records d w show ?thesis by (intro conjI) blast+
qed

subsection \<open>C10: labels with equal counts\<close>

text \<open>
  C10: the entries of the count map are in the order in which their keys are first met, and
  for every count the labels with that count appear, in the summary and in the counts
  sheet, in that first-met order.
\<close>

theorem ties_first_seen:
  "map fst (filter (\<lambda>e. snd e = c) (sortedLabels records)) =
     filter (\<lambda>k. count_list (normalizedLabels records) k = c)
       (firstSeenOrder (normalizedLabels records)) \<and>
   map Label (filter (\<lambda>r. Count r = c) (countsData records)) =
     filter (\<lambda>k. count_list (normalizedLabels records) k = c)
       (firstSeenOrder (normalizedLabels records)) \<and>
   map fst (labelCountsOf records) = firstSeenOrder (normalizedLabels records)"
proof -
  have "map fst (labelCountsOf records) = firstSeenOrder (normalizedLabels records)"
    by (simp add: labelCountsOf_tabulate comp_def)
  then show ?thesis by (simp add: ties_countsData ties_sortedLabels)
qed

text \<open>C10 at the example records.\<close>

theorem ties_first_seen_witness:
  "normalizedLabels exampleRecords =
     [''bug'', ''bug'', ''ui'', ''slow'', ''ui'', ''crash'', ''slow'', ''idea''] \<and>
   firstSeenOrder (normalizedLabels exampleRecords) =
     [''bug'', ''ui'', ''slow'', ''crash'', ''idea''] \<and>
   map fst (filter (\<lambda>e. snd e = 2) (sortedLabels exampleRecords)) = [''bug'', ''ui'', ''slow''] \<and>
   map fst (filter (\<lambda>e. snd e = 1) (sortedLabels exampleRecords)) = [''crash'', ''idea'']"
proof -
  have n: "normalizedLabels exampleRecords =
     [''bug'', ''bug'', ''ui'', ''slow'', ''ui'', ''crash'', ''slow'', ''idea'']"
    by code_simp
  have f: "firstSeenOrder [''bug'', ''bug'', ''ui'', ''slow'', ''ui'', ''crash'', ''slow'', ''idea''] =
     [''bug'', ''ui'', ''slow'', ''crash'', ''idea'']"
    by code_simp
  have c2: "filter (\<lambda>k. count_list [''bug'', ''bug'', ''ui'', ''slow'', ''ui'', ''crash'', ''slow'', ''idea''] k = 2)
      [''bug'', ''ui'', ''slow'', ''crash'', ''idea''] = [''bug'', ''ui'', ''slow'']"
    by simp
  have c1: "filter (\<lambda>k. count_list [''bug'', ''bug'', ''ui'', ''slow'', ''ui'', ''crash'', ''slow'', ''idea''] k = 1)
      [''bug'', ''ui'', ''slow'', ''crash'', ''idea''] = [''crash'', ''idea'']"
    by simp
  from ties_first_seen [of 2 exampleRecords] ties_first_seen [of 1 exampleRecords] n f c1 c2
  show ?thesis by simp
qed

end
